theory Spec2Isabelle
  imports Complex_Main "HOL-Library.AList"
begin

section \<open>Data model of the demo data store (api/storage.py)\<close>

text \<open>
  The store keeps its records in Python dictionaries and mutates them in place. Here every
  operation takes the store and returns the updated one. The clock (\<open>timezone.now()\<close>) and
  the random part of \<open>_uid\<close> are read once per call in the source and are arguments of
  the model. Timestamps are seconds as real numbers; the difference of two of them is the
  duration whose \<open>total_seconds()\<close> the source reads. The recomputation of an ingestion
  is given twice: \<open>refresh_ingestion_progress\<close> does the arithmetic on the elapsed time
  over the reals, and \<open>refresh_ingestion_progress_float\<close> does it in IEEE double
  precision, as Python does. The two agree on status and steps; the stored progress differs
  where the rounded product falls just below a whole number (57 instead of 58 at 29 seconds).
\<close>

datatype py_error = IndexError

text \<open>The status strings \<open>pending\<close>, \<open>in_progress\<close>, \<open>completed\<close>, \<open>canceled\<close>
  of steps and of ingestion records, and the four status strings of generation jobs.\<close>

datatype status = Pending | In_progress | Completed | Canceled

datatype job_status = Queued | Running | Succeeded | Failed

record step =
  step_id :: string
  label :: string
  step_status :: status

text \<open>An asset of an ingestion's asset group. The dictionaries built by
  \<open>_build_ingestion_assets\<close> have no \<open>category\<close> key; \<open>group_id_from_asset\<close> reads
  it with \<open>get\<close>, so it is an optional field.\<close>

record asset =
  asset_id :: string
  asset_name :: string
  url :: string
  selected :: bool
  category :: "string option"

record asset_group =
  group_id :: string
  group_name :: string
  group_assets :: "asset list"

record IngestionRecord =
  rec_id :: string
  store_id :: string
  status :: status
  progress :: int
  steps :: "step list"
  estimated_seconds_remaining :: int
  started_at :: real
  selected_asset_ids :: "string set"
  asset_groups :: "asset_group list"

text \<open>An entry of \<open>DemoDataStore.assets\<close>.\<close>

record stored_asset =
  sa_id :: string
  sa_name :: string
  sa_category :: string
  sa_storeId :: string
  sa_url :: string

text \<open>A poster or menu-board job. Of the payload only \<open>headline\<close> is read again (by
  \<open>save_poster_job\<close>); a menu-board job has none.\<close>

record job =
  job_id :: string
  job_status :: job_status
  resultUrl :: "string option"
  error :: "string option"
  headline :: "string option"
  createdAt :: real

record store =
  st_id :: string
  st_name :: string
  st_address :: string
  st_category :: string

record prefs =
  theme :: string
  notifications :: bool

text \<open>The mutable part of \<open>DemoDataStore\<close>. \<open>user_store_links\<close> is iterated by
  \<open>link_store_for_asset\<close>, so it is an association list in insertion order; the other
  dictionaries are only looked up and updated by key.\<close>

record DemoDataStore =
  user_preferences :: "int \<rightharpoonup> prefs"
  user_store_links :: "(int \<times> string list) list"
  ingestions :: "string \<rightharpoonup> IngestionRecord"
  assets :: "string \<rightharpoonup> stored_asset"
  poster_jobs :: "string \<rightharpoonup> job"
  menu_board_jobs :: "string \<rightharpoonup> job"

text \<open>\<open>self.stores\<close> and \<open>self.asset_library_id\<close> are assigned in \<open>__init__\<close> and never
  again, so they are constants.\<close>

definition stores :: "store list" where
  "stores =
    [\<lparr>st_id = ''s1'', st_name = ''The Morning Brew'', st_address = ''123 Main St'',
       st_category = ''Cafe''\<rparr>,
     \<lparr>st_id = ''s2'', st_name = ''Golden Spoon Diner'', st_address = ''22 Oak Avenue'',
       st_category = ''Diner''\<rparr>,
     \<lparr>st_id = ''s3'', st_name = ''Lotus Garden'', st_address = ''8 Park Lane'',
       st_category = ''Restaurant''\<rparr>,
     \<lparr>st_id = ''s4'', st_name = ''Neon Noodles'', st_address = ''77 Sunset Blvd'',
       st_category = ''Street Food''\<rparr>]"

definition asset_library_id :: string where
  "asset_library_id = ''library_default''"

section \<open>Helpers\<close>

text \<open>\<open>_uid(prefix)\<close>: the prefix, an underscore and the first 12 characters of a fresh
  hexadecimal string.\<close>

definition uid :: "string \<Rightarrow> string \<Rightarrow> string" where
  "uid prefix hex = prefix @ ''_'' @ take 12 hex"

text \<open>Python's \<open>int(x)\<close> on a float truncates towards zero.\<close>

definition py_int :: "real \<Rightarrow> int" where
  "py_int x = (if 0 \<le> x then \<lfloor>x\<rfloor> else \<lceil>x\<rceil>)"

text \<open>The decimal digits of a number, as an f-string prints it.\<close>

fun str_nat :: "nat \<Rightarrow> string" where
  "str_nat n =
     (if n < 10 then [''0123456789'' ! n]
      else str_nat (n div 10) @ [''0123456789'' ! (n mod 10)])"

declare str_nat.simps [simp del]

text \<open>Truthiness of an optional string: \<open>None\<close> and the empty string are false.\<close>

fun truthy :: "string option \<Rightarrow> bool" where
  "truthy None = False"
| "truthy (Some s) = (s \<noteq> [])"

section \<open>User state\<close>

definition default_prefs :: prefs where
  "default_prefs = \<lparr>theme = ''light'', notifications = True\<rparr>"

definition ensure_user_state :: "int \<Rightarrow> DemoDataStore \<Rightarrow> DemoDataStore" where
  "ensure_user_state user_id st =
     (let st1 = (if user_preferences st user_id = None
                 then st\<lparr>user_preferences := (user_preferences st)(user_id \<mapsto> default_prefs)\<rparr>
                 else st)
      in if map_of (user_store_links st1) user_id = None
         then st1\<lparr>user_store_links :=
                    AList.update user_id [st_id (stores ! 0)] (user_store_links st1)\<rparr>
         else st1)"

text \<open>\<open>link_store\<close>: after \<open>ensure_user_state\<close> the user has an entry, so the lookup of
  the source cannot raise; the \<open>None\<close> branch below is never taken.\<close>

definition link_store :: "int \<Rightarrow> string \<Rightarrow> DemoDataStore \<Rightarrow> DemoDataStore" where
  "link_store user_id sid st =
     (let st1 = ensure_user_state user_id st
      in case map_of (user_store_links st1) user_id of
           None \<Rightarrow> st1
         | Some linked \<Rightarrow>
             if sid \<notin> set linked
             then st1\<lparr>user_store_links :=
                        AList.update user_id (linked @ [sid]) (user_store_links st1)\<rparr>
             else st1)"

definition link_store_for_asset :: "string \<Rightarrow> DemoDataStore \<Rightarrow> DemoDataStore" where
  "link_store_for_asset sid st =
     fold (\<lambda>user_id s. link_store user_id sid s) (map fst (user_store_links st)) st"

definition get_store :: "string \<Rightarrow> store option" where
  "get_store sid = find (\<lambda>s. st_id s = sid) stores"

section \<open>Ingestions\<close>

definition base_images :: "string list" where
  "base_images =
    [''https://images.unsplash.com/photo-1504674900247-0877df9cc836?q=80&w=800'',
     ''https://images.unsplash.com/photo-1509042239860-f550ce710b93?q=80&w=800'',
     ''https://images.unsplash.com/photo-1504674900247-0877df9cc836?q=80&w=800'',
     ''https://images.unsplash.com/photo-1487412720507-e7ab37603c6f?q=80&w=800'']"

definition categories :: "(string \<times> string) list" where
  "categories =
    [(''logo'', ''Store Logo''), (''menu'', ''Menu''),
     (''products'', ''Product Images''), (''interior'', ''Interior'')]"

definition build_asset :: "string \<Rightarrow> nat \<Rightarrow> string \<Rightarrow> string \<Rightarrow> nat \<Rightarrow> asset" where
  "build_asset sid idx category_id name variant =
     \<lparr>asset_id = category_id @ ''_'' @ str_nat variant @ ''_'' @ sid,
      asset_name = name @ '' '' @ str_nat variant,
      url = base_images ! ((idx + variant) mod length base_images),
      selected = (variant = 1),
      category = None\<rparr>"

definition build_ingestion_assets :: "string \<Rightarrow> asset_group list" where
  "build_ingestion_assets sid =
     map (\<lambda>(idx, category_id, name).
            \<lparr>group_id = category_id, group_name = name,
             group_assets = map (build_asset sid idx category_id name) [1..<3]\<rparr>)
         (enumerate 0 categories)"

definition initial_steps :: "step list" where
  "initial_steps =
    [\<lparr>step_id = ''collect_basics'', label = ''Collecting basic information'',
       step_status = In_progress\<rparr>,
     \<lparr>step_id = ''find_logo'', label = ''Finding store logo'', step_status = Pending\<rparr>,
     \<lparr>step_id = ''catalog_products'', label = ''Cataloging products'', step_status = Pending\<rparr>,
     \<lparr>step_id = ''gather_photos'', label = ''Gathering photos'', step_status = Pending\<rparr>]"

text \<open>\<open>start_ingestion\<close>: \<open>started_at\<close> defaults to the clock and \<open>selected_asset_ids\<close> to
  the empty set.\<close>

definition start_ingestion ::
  "string \<Rightarrow> real \<Rightarrow> string \<Rightarrow> DemoDataStore \<Rightarrow> IngestionRecord \<times> DemoDataStore" where
  "start_ingestion sid now hex st =
     (let ingestion_id = uid ''ing'' hex;
          record = \<lparr>rec_id = ingestion_id, store_id = sid, status = In_progress, progress = 5,
                    steps = initial_steps, estimated_seconds_remaining = 90,
                    started_at = now, selected_asset_ids = {},
                    asset_groups = build_ingestion_assets sid\<rparr>
      in (record, st\<lparr>ingestions := (ingestions st)(ingestion_id \<mapsto> record)\<rparr>))"

text \<open>\<open>_refresh_ingestion_progress\<close>. The first loop accumulates the cutoffs; the second
  walks \<open>enumerate(progress_points)\<close> and stops at the first cutoff not yet reached.
  \<open>record.steps[idx]\<close> raises \<open>IndexError\<close> on a record with too few steps. The counter
  \<open>steps_completed\<close> of the source is written and never read. In this version the
  elapsed time and the two expressions of the last lines are exact real numbers; the
  version in double precision follows below as \<open>refresh_ingestion_progress_float\<close>.\<close>

definition step_durations :: "int list" where
  "step_durations = [8, 10, 12, 20]"

fun accumulate :: "int \<Rightarrow> int list \<Rightarrow> int list" where
  "accumulate cumulative [] = []"
| "accumulate cumulative (duration # ds) =
     (cumulative + duration) # accumulate (cumulative + duration) ds"

definition progress_points :: "int list" where
  "progress_points = accumulate 0 step_durations"

definition total_time :: int where
  "total_time = last progress_points"

definition set_step_status :: "status \<Rightarrow> step \<Rightarrow> step" where
  "set_step_status s stp = stp\<lparr>step_status := s\<rparr>"

fun advance_steps :: "real \<Rightarrow> (nat \<times> int) list \<Rightarrow> step list \<Rightarrow> py_error + step list" where
  "advance_steps elapsed [] stps = Inr stps"
| "advance_steps elapsed ((idx, cutoff) # rest) stps =
     (if length stps \<le> idx then Inl IndexError
      else if of_int cutoff \<le> elapsed
           then advance_steps elapsed rest (stps[idx := set_step_status Completed (stps ! idx)])
           else if step_status (stps ! idx) = Pending
                then Inr (stps[idx := set_step_status In_progress (stps ! idx)])
                else Inr stps)"

definition refresh_ingestion_progress ::
  "real \<Rightarrow> IngestionRecord \<Rightarrow> py_error + IngestionRecord" where
  "refresh_ingestion_progress now record =
     (if status record \<noteq> In_progress then Inr record
      else
        let elapsed = now - started_at record in
        case advance_steps elapsed (enumerate 0 progress_points) (steps record) of
          Inl e \<Rightarrow> Inl e
        | Inr stps \<Rightarrow>
            if of_int total_time \<le> elapsed
            then Inr (record\<lparr>status := Completed, progress := 100,
                             estimated_seconds_remaining := 0,
                             steps := map (set_step_status Completed) stps\<rparr>)
            else Inr (record\<lparr>steps := stps,
                             progress := min 95 (py_int (elapsed / of_int total_time * 100)),
                             estimated_seconds_remaining :=
                               max 10 (py_int (of_int total_time - elapsed))\<rparr>))"

definition get_ingestion ::
  "string \<Rightarrow> real \<Rightarrow> DemoDataStore \<Rightarrow> py_error + (IngestionRecord option \<times> DemoDataStore)" where
  "get_ingestion ingestion_id now st =
     (case ingestions st ingestion_id of
        None \<Rightarrow> Inr (None, st)
      | Some record \<Rightarrow>
          (case refresh_ingestion_progress now record of
             Inl e \<Rightarrow> Inl e
           | Inr record' \<Rightarrow>
               Inr (Some record', st\<lparr>ingestions := (ingestions st)(ingestion_id \<mapsto> record')\<rparr>)))"

text \<open>The body of \<open>cancel_ingestion\<close> on the record it found.\<close>

definition cancel_record :: "IngestionRecord \<Rightarrow> IngestionRecord" where
  "cancel_record record =
     record\<lparr>status := Canceled, estimated_seconds_remaining := 0,
            progress := min (progress record) 80,
            steps := map (\<lambda>stp. if step_status stp = In_progress
                                 then set_step_status Canceled stp else stp) (steps record)\<rparr>"

definition cancel_ingestion ::
  "string \<Rightarrow> DemoDataStore \<Rightarrow> IngestionRecord option \<times> DemoDataStore" where
  "cancel_ingestion ingestion_id st =
     (case ingestions st ingestion_id of
        None \<Rightarrow> (None, st)
      | Some record \<Rightarrow>
          (Some (cancel_record record),
           st\<lparr>ingestions := (ingestions st)(ingestion_id \<mapsto> cancel_record record)\<rparr>))"

text \<open>The body of \<open>record_selection\<close>: the set is replaced, then every flag is set from
  membership in the new set.\<close>

definition select_record :: "string list \<Rightarrow> IngestionRecord \<Rightarrow> IngestionRecord" where
  "select_record selected_ids record =
     (let record1 = record\<lparr>selected_asset_ids := set selected_ids\<rparr>
      in record1\<lparr>asset_groups :=
           map (\<lambda>g. g\<lparr>group_assets :=
                        map (\<lambda>a. a\<lparr>selected := (asset_id a \<in> selected_asset_ids record1)\<rparr>)
                            (group_assets g)\<rparr>)
               (asset_groups record1)\<rparr>)"

definition record_selection ::
  "string \<Rightarrow> string list \<Rightarrow> DemoDataStore \<Rightarrow> string set option \<times> DemoDataStore" where
  "record_selection ingestion_id selected_ids st =
     (case ingestions st ingestion_id of
        None \<Rightarrow> (None, st)
      | Some record \<Rightarrow>
          (Some (selected_asset_ids (select_record selected_ids record)),
           st\<lparr>ingestions := (ingestions st)(ingestion_id \<mapsto> select_record selected_ids record)\<rparr>))"

text \<open>\<open>group_id_from_asset\<close>; \<open>split("_", 1)[0]\<close> is the part before the first
  underscore.\<close>

definition group_id_from_asset :: "asset \<Rightarrow> string" where
  "group_id_from_asset a =
     (if truthy (category a) then (case category a of Some c \<Rightarrow> c | None \<Rightarrow> [])
      else if CHR ''_'' \<in> set (asset_id a)
           then takeWhile (\<lambda>c. c \<noteq> CHR ''_'') (asset_id a)
           else ''products'')"

text \<open>The parts of \<open>finalize_ingestion\<close>: the forced terminal state, the collected
  assets, and the copy stored for each of them.\<close>

definition complete_record :: "IngestionRecord \<Rightarrow> IngestionRecord" where
  "complete_record record =
     record\<lparr>status := Completed, progress := 100, estimated_seconds_remaining := 0,
            steps := map (set_step_status Completed) (steps record)\<rparr>"

definition selected_assets :: "IngestionRecord \<Rightarrow> asset list" where
  "selected_assets record =
     concat (map (\<lambda>g. filter (\<lambda>a. asset_id a \<in> selected_asset_ids record \<or> selected a)
                              (group_assets g))
                 (asset_groups record))"

definition asset_copy :: "IngestionRecord \<Rightarrow> asset \<Rightarrow> stored_asset" where
  "asset_copy record a =
     \<lparr>sa_id = asset_id a, sa_name = asset_name a, sa_category = group_id_from_asset a,
      sa_storeId = store_id record, sa_url = url a\<rparr>"

text \<open>\<open>self.assets[asset_copy["id"]] = asset_copy\<close>\<close>

definition put_asset :: "stored_asset \<Rightarrow> (string \<rightharpoonup> stored_asset) \<Rightarrow> (string \<rightharpoonup> stored_asset)" where
  "put_asset a m = m(sa_id a \<mapsto> a)"

record finalize_outcome =
  assetLibraryId :: string
  totalAssets :: nat

definition finalize_ingestion ::
  "string \<Rightarrow> DemoDataStore \<Rightarrow> finalize_outcome option \<times> DemoDataStore" where
  "finalize_ingestion ingestion_id st =
     (case ingestions st ingestion_id of
        None \<Rightarrow> (None, st)
      | Some record0 \<Rightarrow>
          let record = complete_record record0;
              st1 = st\<lparr>ingestions := (ingestions st)(ingestion_id \<mapsto> record)\<rparr>;
              chosen = selected_assets record;
              st2 = st1\<lparr>assets :=
                      fold (\<lambda>a. put_asset (asset_copy record a)) chosen (assets st1)\<rparr>;
              st3 = link_store_for_asset (store_id record) st2
          in (Some \<lparr>assetLibraryId = asset_library_id, totalAssets = length chosen\<rparr>, st3))"

text \<open>\<open>StoreIngestionStartView.post\<close>, after the authentication check: it links the store
  to the caller, starts the ingestion and at once records the flagged assets as the
  selection.\<close>

datatype start_response = Store_not_found | Started string status

definition flagged_ids :: "IngestionRecord \<Rightarrow> string list" where
  "flagged_ids record =
     concat (map (\<lambda>g. map asset_id (filter selected (group_assets g))) (asset_groups record))"

definition store_ingestion_start_view ::
  "int \<Rightarrow> string \<Rightarrow> real \<Rightarrow> string \<Rightarrow> DemoDataStore \<Rightarrow> start_response \<times> DemoDataStore" where
  "store_ingestion_start_view user_id sid now hex st =
     (case get_store sid of
        None \<Rightarrow> (Store_not_found, st)
      | Some _ \<Rightarrow>
          let st1 = link_store user_id sid st;
              (record, st2) = start_ingestion sid now hex st1;
              (_, st3) = record_selection (rec_id record) (flagged_ids record) st2
          in (Started (rec_id record) (status record), st3))"

section \<open>Generation jobs\<close>

definition default_asset_url :: string where
  "default_asset_url = ''https://images.unsplash.com/photo-1509042239860-f550ce710b93?q=80&w=900''"

definition create_asset ::
  "string \<Rightarrow> string \<Rightarrow> string \<Rightarrow> string option \<Rightarrow> string option \<Rightarrow> string \<Rightarrow> DemoDataStore
     \<Rightarrow> stored_asset \<times> DemoDataStore" where
  "create_asset name cat sid aid_opt url_opt hex st =
     (let final_id = (case aid_opt of Some a \<Rightarrow> if a \<noteq> [] then a else uid ''asset'' hex
                                     | None \<Rightarrow> uid ''asset'' hex);
          a = \<lparr>sa_id = final_id, sa_name = name, sa_category = cat, sa_storeId = sid,
               sa_url = (case url_opt of Some u \<Rightarrow> if u \<noteq> [] then u else default_asset_url
                                       | None \<Rightarrow> default_asset_url)\<rparr>
      in (a, st\<lparr>assets := (assets st)(final_id \<mapsto> a)\<rparr>))"

definition new_job :: "string \<Rightarrow> string option \<Rightarrow> real \<Rightarrow> job" where
  "new_job jid hl now =
     \<lparr>job_id = jid, job_status = Queued, resultUrl = None, error = None, headline = hl,
      createdAt = now\<rparr>"

definition create_poster_job ::
  "string option \<Rightarrow> real \<Rightarrow> string \<Rightarrow> DemoDataStore \<Rightarrow> job \<times> DemoDataStore" where
  "create_poster_job hl now hex st =
     (let j = new_job (uid ''poster_job'' hex) hl now
      in (j, st\<lparr>poster_jobs := (poster_jobs st)(job_id j \<mapsto> j)\<rparr>))"

definition create_menu_board_job ::
  "real \<Rightarrow> string \<Rightarrow> DemoDataStore \<Rightarrow> job \<times> DemoDataStore" where
  "create_menu_board_job now hex st =
     (let j = new_job (uid ''menu_job'' hex) None now
      in (j, st\<lparr>menu_board_jobs := (menu_board_jobs st)(job_id j \<mapsto> j)\<rparr>))"

text \<open>\<open>_progress_job\<close>; its argument \<open>kind\<close> is not read.\<close>

definition result_url_prefix :: string where
  "result_url_prefix =
     ''https://images.unsplash.com/photo-1504674900247-0877df9cc836?q=80&w=1200&''"

definition progress_job :: "job \<Rightarrow> string \<Rightarrow> real \<Rightarrow> job" where
  "progress_job j kind now =
     (if job_status j = Failed \<or> job_status j = Succeeded then j
      else
        let elapsed = now - createdAt j in
        if elapsed > 10
        then j\<lparr>job_status := Succeeded, resultUrl := Some (result_url_prefix @ job_id j)\<rparr>
        else if elapsed > 2 then j\<lparr>job_status := Running\<rparr>
        else j\<lparr>job_status := Queued\<rparr>)"

definition get_poster_job ::
  "string \<Rightarrow> real \<Rightarrow> DemoDataStore \<Rightarrow> job option \<times> DemoDataStore" where
  "get_poster_job jid now st =
     (case poster_jobs st jid of
        None \<Rightarrow> (None, st)
      | Some j \<Rightarrow>
          (Some (progress_job j ''poster'' now),
           st\<lparr>poster_jobs := (poster_jobs st)(jid \<mapsto> progress_job j ''poster'' now)\<rparr>))"

definition get_menu_board_job ::
  "string \<Rightarrow> real \<Rightarrow> DemoDataStore \<Rightarrow> job option \<times> DemoDataStore" where
  "get_menu_board_job jid now st =
     (case menu_board_jobs st jid of
        None \<Rightarrow> (None, st)
      | Some j \<Rightarrow>
          (Some (progress_job j ''menu'' now),
           st\<lparr>menu_board_jobs := (menu_board_jobs st)(jid \<mapsto> progress_job j ''menu'' now)\<rparr>))"

definition not_finished :: "job \<Rightarrow> job" where
  "not_finished j = j\<lparr>job_status := Failed, error := Some ''Job is not finished yet.''\<rparr>"

definition save_poster_job ::
  "string \<Rightarrow> string \<Rightarrow> DemoDataStore \<Rightarrow> string option \<times> DemoDataStore" where
  "save_poster_job jid hex st =
     (case poster_jobs st jid of
        None \<Rightarrow> (None, st)
      | Some j \<Rightarrow>
          if job_status j \<noteq> Succeeded
          then (None, st\<lparr>poster_jobs := (poster_jobs st)(jid \<mapsto> not_finished j)\<rparr>)
          else
            let (a, st1) =
                  create_asset (case headline j of Some h \<Rightarrow> if h \<noteq> [] then h else ''Generated Poster''
                                                  | None \<Rightarrow> ''Generated Poster'')
                               ''poster'' (st_id (stores ! 0)) None None hex st
            in (Some (sa_id a), st1))"

definition save_menu_board_job ::
  "string \<Rightarrow> string \<Rightarrow> DemoDataStore \<Rightarrow> string option \<times> DemoDataStore" where
  "save_menu_board_job jid hex st =
     (case menu_board_jobs st jid of
        None \<Rightarrow> (None, st)
      | Some j \<Rightarrow>
          if job_status j \<noteq> Succeeded
          then (None, st\<lparr>menu_board_jobs := (menu_board_jobs st)(jid \<mapsto> not_finished j)\<rparr>)
          else
            let (a, st1) =
                  create_asset ''Menu Board'' ''menu'' (st_id (stores ! 0)) None None hex st
            in (Some (sa_id a), st1))"

text \<open>The two save views, after the authentication check: the view tells an unknown job
  (404) from a job that is not ready (400), which the store functions both answer with
  \<open>None\<close>.\<close>

datatype save_response = Job_not_found | Job_not_ready | Saved string

definition poster_generation_save_view ::
  "string \<Rightarrow> string \<Rightarrow> DemoDataStore \<Rightarrow> save_response \<times> DemoDataStore" where
  "poster_generation_save_view jid hex st =
     (if poster_jobs st jid = None then (Job_not_found, st)
      else case save_poster_job jid hex st of
             (None, st1) \<Rightarrow> (Job_not_ready, st1)
           | (Some aid, st1) \<Rightarrow> if aid = [] then (Job_not_ready, st1) else (Saved aid, st1))"

definition menu_board_generation_save_view ::
  "string \<Rightarrow> string \<Rightarrow> DemoDataStore \<Rightarrow> save_response \<times> DemoDataStore" where
  "menu_board_generation_save_view jid hex st =
     (if menu_board_jobs st jid = None then (Job_not_found, st)
      else case save_menu_board_job jid hex st of
             (None, st1) \<Rightarrow> (Job_not_ready, st1)
           | (Some aid, st1) \<Rightarrow> if aid = [] then (Job_not_ready, st1) else (Saved aid, st1))"

section \<open>Sequences of operations and the properties observed on a record\<close>

datatype ingestion_op =
    Get_ingestion string real
  | Cancel_ingestion string
  | Record_selection string "string list"
  | Finalize_ingestion string

fun apply_op :: "ingestion_op \<Rightarrow> DemoDataStore \<Rightarrow> py_error + DemoDataStore" where
  "apply_op (Get_ingestion i now) st =
     (case get_ingestion i now st of Inl e \<Rightarrow> Inl e | Inr (_, st1) \<Rightarrow> Inr st1)"
| "apply_op (Cancel_ingestion i) st = Inr (snd (cancel_ingestion i st))"
| "apply_op (Record_selection i ids) st = Inr (snd (record_selection i ids st))"
| "apply_op (Finalize_ingestion i) st = Inr (snd (finalize_ingestion i st))"

fun run_ops :: "ingestion_op list \<Rightarrow> DemoDataStore \<Rightarrow> py_error + DemoDataStore" where
  "run_ops [] st = Inr st"
| "run_ops (x # xs) st = (case apply_op x st of Inl e \<Rightarrow> Inl e | Inr st1 \<Rightarrow> run_ops xs st1)"


definition statuses :: "IngestionRecord \<Rightarrow> status list" where
  "statuses record = map step_status (steps record)"

definition in_progress_count :: "IngestionRecord \<Rightarrow> nat" where
  "in_progress_count record = length (filter (\<lambda>s. s = In_progress) (statuses record))"

text \<open>The shape of the steps of a running ingestion: completed steps, then at most one
  step in progress, then pending steps.\<close>

fun ordered_statuses :: "status list \<Rightarrow> bool" where
  "ordered_statuses [] = True"
| "ordered_statuses (Completed # xs) = ordered_statuses xs"
| "ordered_statuses (In_progress # xs) = list_all (\<lambda>s. s = Pending) xs"
| "ordered_statuses (Pending # xs) = list_all (\<lambda>s. s = Pending) xs"
| "ordered_statuses (Canceled # xs) = False"

definition steps_consistent :: "IngestionRecord \<Rightarrow> bool" where
  "steps_consistent record =
     (if status record = In_progress then ordered_statuses (statuses record)
      else in_progress_count record \<le> 1)"

text \<open>The two representations of the selection agree on a record.\<close>

definition selection_in_sync :: "IngestionRecord \<Rightarrow> bool" where
  "selection_in_sync record =
     list_all (\<lambda>g. list_all (\<lambda>a. selected a = (asset_id a \<in> selected_asset_ids record))
                             (group_assets g))
              (asset_groups record)"

text \<open>What the second loop of \<open>_refresh_ingestion_progress\<close> does to the first step whose
  cutoff is not reached.\<close>

definition begin_step :: "step \<Rightarrow> step" where
  "begin_step s = (if step_status s = Pending then set_step_status In_progress s else s)"



text \<open>Every ingestion of the store has the four steps that \<open>start_ingestion\<close> gives it; on
  such a store no recomputation raises.\<close>

definition wf_store :: "DemoDataStore \<Rightarrow> bool" where
  "wf_store st = (\<forall>r \<in> ran (ingestions st). length (steps r) = 4)"

text \<open>How a later state \<open>r'\<close> of a record relates to an earlier state \<open>r\<close>: the relation
  is reflexive and transitive, and every operation on a record satisfies it.\<close>

definition evolves :: "IngestionRecord \<Rightarrow> IngestionRecord \<Rightarrow> bool" where
  "evolves r r' =
     (length (steps r') = length (steps r) \<and>
      (\<forall>i < length (steps r). step_status (steps r ! i) = Completed \<longrightarrow>
          step_status (steps r' ! i) = Completed) \<and>
      (\<forall>i < length (steps r). step_status (steps r ! i) = Canceled \<longrightarrow>
          step_status (steps r' ! i) = Canceled \<or> step_status (steps r' ! i) = Completed) \<and>
      (status r \<noteq> In_progress \<longrightarrow> status r' \<noteq> In_progress) \<and>
      (steps_consistent r \<longrightarrow> steps_consistent r') \<and>
      (selection_in_sync r \<longrightarrow> selection_in_sync r'))"

text \<open>The asset view of a record: per group, the id and the flag of each asset.\<close>

definition asset_flags :: "IngestionRecord \<Rightarrow> (string \<times> bool) list list" where
  "asset_flags r = map (\<lambda>g. map (\<lambda>a. (asset_id a, selected a)) (group_assets g)) (asset_groups r)"

text \<open>What \<open>link_store\<close> does to the list of a user who has one.\<close>

definition add_link :: "string \<Rightarrow> string list \<Rightarrow> string list" where
  "add_link sid linked = (if sid \<in> set linked then linked else linked @ [sid])"

text \<open>The name of a saved poster, \<open>job.get("headline") or "Generated Poster"\<close>, and the
  asset that \<open>create_asset\<close> stores for a saved job.\<close>

definition poster_name :: "job \<Rightarrow> string" where
  "poster_name j = (case headline j of Some h \<Rightarrow> if h \<noteq> [] then h else ''Generated Poster''
                                     | None \<Rightarrow> ''Generated Poster'')"

definition promoted :: "string \<Rightarrow> string \<Rightarrow> string \<Rightarrow> stored_asset" where
  "promoted name cat hex =
     \<lparr>sa_id = uid ''asset'' hex, sa_name = name, sa_category = cat, sa_storeId = ''s1'',
      sa_url = default_asset_url\<rparr>"

subsection \<open>Double-precision arithmetic\<close>

text \<open>
  Rounding of a real number to the nearest IEEE double, ties to even. A magnitude is scaled
  by powers of two until it lies in \<open>[2^52, 2^53)\<close>, or until the exponent reaches -1074,
  the exponent of the subnormal doubles; the scaled value is rounded to a whole number and
  scaled back. Overflow to infinity (magnitudes from \<open>2^1024\<close> on) is not modelled: the
  durations between two \<open>datetime\<close> values stay below \<open>2^39\<close> seconds.
\<close>

function scale_down :: "real \<Rightarrow> int \<Rightarrow> real \<times> int" where
  "scale_down m e = (if 2 ^ 53 \<le> m then scale_down (m / 2) (e + 1) else (m, e))"
  by pat_completeness auto
termination
proof (relation "measure (\<lambda>(m, e). nat \<lceil>m\<rceil>)")
  show "wf (measure (\<lambda>(m, e). nat \<lceil>m\<rceil>))"
    by simp
next
  fix m :: real and e :: int
  assume big: "2 ^ 53 \<le> m"
  have "real_of_int \<lceil>m / 2\<rceil> < m / 2 + 1"
    by linarith
  also have "\<dots> \<le> m"
    using big by simp
  also have "\<dots> \<le> real_of_int \<lceil>m\<rceil>"
    by linarith
  finally have "\<lceil>m / 2\<rceil> < \<lceil>m\<rceil>"
    by simp
  moreover have "0 < \<lceil>m\<rceil>"
    using big by (simp add: ceiling_less_iff less_ceiling_iff)
  ultimately show "((m / 2, e + 1), (m, e)) \<in> measure (\<lambda>(m, e). nat \<lceil>m\<rceil>)"
    by simp
qed

function scale_up :: "real \<Rightarrow> int \<Rightarrow> real \<times> int" where
  "scale_up m e = (if m < 2 ^ 52 \<and> - 1074 < e then scale_up (2 * m) (e - 1) else (m, e))"
  by pat_completeness auto
termination
  by (relation "measure (\<lambda>(m, e). nat (e + 1074))") auto

declare scale_down.simps [simp del] scale_up.simps [simp del]

definition round_half_even :: "real \<Rightarrow> int" where
  "round_half_even y =
     (let f = \<lfloor>y\<rfloor>; d = y - of_int f
      in if d < 1 / 2 then f else if 1 / 2 < d then f + 1 else if even f then f else f + 1)"

definition normalise :: "real \<Rightarrow> real \<times> int" where
  "normalise x = (if 2 ^ 53 \<le> x then scale_down x 0 else scale_up x 0)"

definition round_magnitude :: "real \<Rightarrow> real" where
  "round_magnitude x =
     (let (m, e) = normalise x;
          n = of_int (round_half_even m)
      in if 0 \<le> e then n * 2 ^ nat e else n / 2 ^ nat (- e))"

definition to_double :: "real \<Rightarrow> real" where
  "to_double x = (if x < 0 then - round_magnitude (- x) else round_magnitude x)"

text \<open>
  \<open>_refresh_ingestion_progress\<close> with Python's float arithmetic. \<open>total_seconds()\<close> is
  the double nearest to the duration (a whole number of microseconds divided by \<open>10^6\<close>);
  the comparisons of that double with the integer cutoffs are exact; \<open>elapsed / total_time\<close>,
  the product with 100 and \<open>total_time - elapsed\<close> are each rounded to a double.
\<close>

definition refresh_ingestion_progress_float ::
  "real \<Rightarrow> IngestionRecord \<Rightarrow> py_error + IngestionRecord" where
  "refresh_ingestion_progress_float now record =
     (if status record \<noteq> In_progress then Inr record
      else
        let elapsed = to_double (now - started_at record) in
        case advance_steps elapsed (enumerate 0 progress_points) (steps record) of
          Inl e \<Rightarrow> Inl e
        | Inr stps \<Rightarrow>
            if of_int total_time \<le> elapsed
            then Inr (record\<lparr>status := Completed, progress := 100,
                             estimated_seconds_remaining := 0,
                             steps := map (set_step_status Completed) stps\<rparr>)
            else Inr (record\<lparr>steps := stps,
                             progress :=
                               min 95 (py_int (to_double
                                 (to_double (elapsed / of_int total_time) * 100))),
                             estimated_seconds_remaining :=
                               max 10 (py_int (to_double (of_int total_time - elapsed)))\<rparr>))"

text \<open>What a caller sees of a recomputation, with the remaining seconds.\<close>

definition summary ::
  "py_error + IngestionRecord \<Rightarrow> py_error + status \<times> status list \<times> int \<times> int" where
  "summary res =
     map_sum id (\<lambda>r. (status r, statuses r, progress r, estimated_seconds_remaining r)) res"

subsection \<open>Concrete inputs\<close>

text \<open>An empty store; an ingestion of store \<open>s1\<close> started at time 0 by \<open>start_ingestion\<close>
  alone; an ingestion of store \<open>s2\<close> started through the start view by user 7 while user 9
  is known; and jobs created at time 0.\<close>

definition empty_store :: DemoDataStore where
  "empty_store =
     \<lparr>user_preferences = Map.empty, user_store_links = [], ingestions = Map.empty,
      assets = Map.empty, poster_jobs = Map.empty, menu_board_jobs = Map.empty\<rparr>"

definition demo_hex :: string where
  "demo_hex = ''0123456789abcdef''"

definition demo_id :: string where
  "demo_id = ''ing_0123456789ab''"

definition demo_record :: IngestionRecord where
  "demo_record = fst (start_ingestion ''s1'' 0 demo_hex empty_store)"

definition demo_store :: DemoDataStore where
  "demo_store = snd (start_ingestion ''s1'' 0 demo_hex empty_store)"

definition demo_full_store :: DemoDataStore where
  "demo_full_store =
     snd (store_ingestion_start_view 7 ''s2'' 0 demo_hex (ensure_user_state 9 empty_store))"

definition demo_selected :: IngestionRecord where
  "demo_selected =
     select_record [''logo_1_s2'', ''menu_1_s2'', ''products_1_s2'', ''interior_1_s2'']
       (fst (start_ingestion ''s2'' 0 demo_hex empty_store))"

definition demo_job :: job where
  "demo_job = new_job ''poster_job_0123456789ab'' (Some ''Grand Opening'') 0"

definition demo_job_store :: DemoDataStore where
  "demo_job_store =
     empty_store\<lparr>poster_jobs := [''p1'' \<mapsto> demo_job,
                                  ''p2'' \<mapsto> progress_job demo_job ''poster'' 11],
                 menu_board_jobs := [''m1'' \<mapsto> demo_job\<lparr>headline := None\<rparr>]\<rparr>"

section \<open>The time-driven recomputation of an ingestion\<close>

lemma progress_points_eq: "progress_points = [8, 18, 30, 50]"
  by (simp add: progress_points_def step_durations_def)

lemma total_time_eq: "total_time = 50"
  by (simp add: total_time_def progress_points_eq)

lemma enumerate_points:
  "enumerate 0 progress_points = [(0, 8), (1, 18), (2, 30), (3, 50)]"
  by (simp add: progress_points_eq)

lemma length_four: "length xs = 4 \<Longrightarrow> \<exists>a b c d. xs = [a, b, c, d]"
  by (auto simp: length_Suc_conv numeral_eq_Suc)

lemma less_four: "(i::nat) < 4 \<longleftrightarrow> i = 0 \<or> i = 1 \<or> i = 2 \<or> i = 3"
  by arith

lemma less_three: "(i::nat) < 3 \<longleftrightarrow> i = 0 \<or> i = 1 \<or> i = 2"
  by arith

lemma less_two: "(i::nat) < 2 \<longleftrightarrow> i = 0 \<or> i = 1"
  by arith

lemma set_step_status_twice [simp]:
  "set_step_status s (set_step_status t x) = set_step_status s x"
  by (simp add: set_step_status_def)

lemma step_status_set [simp]: "step_status (set_step_status s x) = s"
  by (simp add: set_step_status_def)

lemma advance_four:
  "advance_steps e (enumerate 0 progress_points) [a, b, c, d] =
     Inr (if e < 8 then [begin_step a, b, c, d]
          else if e < 18 then [set_step_status Completed a, begin_step b, c, d]
          else if e < 30 then [set_step_status Completed a, set_step_status Completed b,
                               begin_step c, d]
          else if e < 50 then [set_step_status Completed a, set_step_status Completed b,
                               set_step_status Completed c, begin_step d]
          else map (set_step_status Completed) [a, b, c, d])"
  by (simp add: enumerate_points begin_step_def)

lemma refresh_four:
  assumes "status r = In_progress" and "steps r = [a, b, c, d]"
  shows "refresh_ingestion_progress now r =
     (let e = now - started_at r in
      if 50 \<le> e
      then Inr (r\<lparr>status := Completed, progress := 100, estimated_seconds_remaining := 0,
                  steps := map (set_step_status Completed) [a, b, c, d]\<rparr>)
      else Inr (r\<lparr>steps := (if e < 8 then [begin_step a, b, c, d]
                 else if e < 18 then [set_step_status Completed a, begin_step b, c, d]
                 else if e < 30 then [set_step_status Completed a, set_step_status Completed b,
                                      begin_step c, d]
                 else [set_step_status Completed a, set_step_status Completed b,
                       set_step_status Completed c, begin_step d]),
               progress := min 95 (py_int (e / 50 * 100)),
               estimated_seconds_remaining := max 10 (py_int (50 - e))\<rparr>))"
  using assms
  by (simp add: refresh_ingestion_progress_def advance_four total_time_eq Let_def)

lemma refresh_frozen: "status r \<noteq> In_progress \<Longrightarrow> refresh_ingestion_progress now r = Inr r"
  by (simp add: refresh_ingestion_progress_def)

lemma demo_record_eq:
  "demo_record =
     \<lparr>rec_id = ''ing_0123456789ab'', store_id = ''s1'', status = In_progress, progress = 5,
      steps = initial_steps, estimated_seconds_remaining = 90, started_at = 0,
      selected_asset_ids = {}, asset_groups = build_ingestion_assets ''s1''\<rparr>"
  by (simp add: demo_record_def start_ingestion_def uid_def demo_hex_def Let_def)

lemmas double_eval = to_double_def round_magnitude_def normalise_def scale_up.simps
  scale_down.simps round_half_even_def Let_def

lemma refresh_float_four:
  assumes "status r = In_progress" and "steps r = [a, b, c, d]"
  shows "refresh_ingestion_progress_float now r =
     (let e = to_double (now - started_at r) in
      if 50 \<le> e
      then Inr (r\<lparr>status := Completed, progress := 100, estimated_seconds_remaining := 0,
                  steps := map (set_step_status Completed) [a, b, c, d]\<rparr>)
      else Inr (r\<lparr>steps := (if e < 8 then [begin_step a, b, c, d]
                 else if e < 18 then [set_step_status Completed a, begin_step b, c, d]
                 else if e < 30 then [set_step_status Completed a, set_step_status Completed b,
                                      begin_step c, d]
                 else [set_step_status Completed a, set_step_status Completed b,
                       set_step_status Completed c, begin_step d]),
               progress := min 95 (py_int (to_double (to_double (e / 50) * 100))),
               estimated_seconds_remaining := max 10 (py_int (to_double (50 - e)))\<rparr>))"
  using assms
  by (simp add: refresh_ingestion_progress_float_def advance_four total_time_eq Let_def)

lemma scale_down_nonneg: "0 \<le> m \<Longrightarrow> 0 \<le> fst (scale_down m e)"
proof (induction m e rule: scale_down.induct)
  case (1 m e)
  then show ?case
    by (subst scale_down.simps) auto
qed

lemma scale_up_nonneg: "0 \<le> m \<Longrightarrow> 0 \<le> fst (scale_up m e)"
proof (induction m e rule: scale_up.induct)
  case (1 m e)
  then show ?case
    by (subst scale_up.simps) auto
qed

lemma round_half_even_nonneg: "0 \<le> y \<Longrightarrow> 0 \<le> round_half_even y"
proof -
  assume "0 \<le> y"
  then have "0 \<le> \<lfloor>y\<rfloor>"
    by simp
  then show ?thesis
    by (simp add: round_half_even_def Let_def)
qed

lemma normalise_nonneg: "0 \<le> x \<Longrightarrow> 0 \<le> fst (normalise x)"
  by (simp add: normalise_def scale_down_nonneg scale_up_nonneg)

lemma round_magnitude_nonneg: "0 \<le> x \<Longrightarrow> 0 \<le> round_magnitude x"
proof -
  assume x: "0 \<le> x"
  obtain m e where me: "normalise x = (m, e)"
    by (cases "normalise x")
  from normalise_nonneg [OF x] have "0 \<le> m"
    by (simp add: me)
  then have "0 \<le> round_half_even m"
    by (rule round_half_even_nonneg)
  then show ?thesis
    by (simp add: round_magnitude_def me Let_def)
qed

lemma to_double_nonneg: "0 \<le> x \<Longrightarrow> 0 \<le> to_double x"
  by (simp add: to_double_def round_magnitude_nonneg)

text \<open>
  Claim C1, as the code has it. For a running record with its four steps and \<open>e\<close> the
  double that \<open>total_seconds()\<close> returns, the recomputation returns a record in which every
  step whose cutoff (8, 18, 30, 50) is at most \<open>e\<close> is completed; the first step whose
  cutoff is not reached goes from pending to in progress (and is left alone otherwise) and
  the later steps are untouched; from 50 seconds on the record is completed with progress
  100, no seconds remaining and all steps completed; before that, progress is
  \<open>min 95 (int ((e / 50) * 100))\<close> and the remaining seconds are \<open>max 10 (int (50 - e))\<close>,
  where the quotient, the product and the difference are rounded to doubles and \<open>int\<close>
  truncates: for \<open>0 \<le> e\<close> these are the floors of the rounded product and of the rounded
  difference (not the ceiling of \<open>50 - e\<close>).
\<close>

theorem refresh_float_steps_and_summary:
  assumes "status r = In_progress" and "length (steps r) = 4"
    and "e = to_double (now - started_at r)"
  shows "\<exists>r'. refresh_ingestion_progress_float now r = Inr r' \<and> length (steps r') = 4 \<and>
     (\<forall>i<4. of_int (progress_points ! i) \<le> e \<longrightarrow> step_status (steps r' ! i) = Completed) \<and>
     (\<forall>k<4. e < of_int (progress_points ! k) \<and> (\<forall>i<k. of_int (progress_points ! i) \<le> e) \<longrightarrow>
        steps r' ! k = begin_step (steps r ! k) \<and>
        (\<forall>j. k < j \<and> j < 4 \<longrightarrow> steps r' ! j = steps r ! j)) \<and>
     (50 \<le> e \<longrightarrow> status r' = Completed \<and> progress r' = 100 \<and>
        estimated_seconds_remaining r' = 0 \<and>
        (\<forall>s \<in> set (steps r'). step_status s = Completed)) \<and>
     (e < 50 \<longrightarrow> status r' = In_progress \<and>
        progress r' = min 95 (py_int (to_double (to_double (e / 50) * 100))) \<and>
        estimated_seconds_remaining r' = max 10 (py_int (to_double (50 - e)))) \<and>
     (0 \<le> e \<and> e < 50 \<longrightarrow>
        progress r' = min 95 \<lfloor>to_double (to_double (e / 50) * 100)\<rfloor> \<and>
        estimated_seconds_remaining r' = max 10 \<lfloor>to_double (50 - e)\<rfloor>)"
proof -
  from assms(2) obtain a b c d where stps: "steps r = [a, b, c, d]"
    using length_four by blast
  note rf = refresh_float_four [OF assms(1) stps, of now, folded assms(3)]
  show ?thesis
  proof (cases "50 \<le> e")
    case True
    then show ?thesis
      by (auto simp add: rf Let_def stps less_four less_three less_two progress_points_eq)
  next
    case False
    then have e50: "e < 50" by simp
    have fl: "py_int (to_double (to_double (e / 50) * 100)) =
          \<lfloor>to_double (to_double (e / 50) * 100)\<rfloor> \<and>
        py_int (to_double (50 - e)) = \<lfloor>to_double (50 - e)\<rfloor>" if "0 \<le> e"
    proof -
      from that have "0 \<le> to_double (e / 50)"
        by (intro to_double_nonneg) simp
      then have "0 \<le> to_double (to_double (e / 50) * 100)"
        by (intro to_double_nonneg) simp
      moreover have "0 \<le> to_double (50 - e)"
        using e50 by (intro to_double_nonneg) simp
      ultimately show ?thesis
        by (simp add: py_int_def)
    qed
    consider "e < 8" | "8 \<le> e" "e < 18" | "18 \<le> e" "e < 30" | "30 \<le> e" "e < 50"
      using e50 by linarith
    then show ?thesis
    proof cases
      case 1
      then show ?thesis using e50 fl assms(1)
        by (auto simp add: rf Let_def stps less_four less_three less_two progress_points_eq)
    next
      case 2
      then show ?thesis using e50 fl assms(1)
        by (auto simp add: rf Let_def stps less_four less_three less_two progress_points_eq)
    next
      case 3
      then show ?thesis using e50 fl assms(1)
        by (auto simp add: rf Let_def stps less_four less_three less_two progress_points_eq)
    next
      case 4
      then show ?thesis using e50 fl assms(1)
        by (auto simp add: rf Let_def stps less_four less_three less_two progress_points_eq)
    qed
  qed
qed

lemma demo_float_summary:
  "summary (refresh_ingestion_progress_float 29 demo_record) =
     Inr (In_progress, [Completed, Completed, In_progress, Pending], 57, 21)"
proof -
  have "status demo_record = In_progress" and "steps demo_record = initial_steps"
    and "started_at demo_record = 0"
    by (simp_all add: demo_record_eq)
  then show ?thesis
    by (simp add: refresh_float_four [of demo_record] initial_steps_def summary_def statuses_def
        begin_step_def double_eval py_int_def)
qed

lemma demo_float_elapsed: "to_double (29 - started_at demo_record) = 29"
  by (simp add: demo_record_eq double_eval)

theorem refresh_float_steps_and_summary_witness:
  "status demo_record = In_progress \<and> length (steps demo_record) = 4 \<and>
   to_double (29 - started_at demo_record) = 29 \<and>
   (\<exists>r'. refresh_ingestion_progress_float 29 demo_record = Inr r' \<and>
      statuses r' = [Completed, Completed, In_progress, Pending] \<and>
      progress r' = 57 \<and> estimated_seconds_remaining r' = 21)"
proof -
  have h1: "status demo_record = In_progress"
    by (simp add: demo_record_eq)
  have h2: "length (steps demo_record) = 4"
    by (simp add: demo_record_eq initial_steps_def)
  have h3: "(29::real) = to_double (29 - started_at demo_record)"
    by (simp add: demo_float_elapsed)
  from refresh_float_steps_and_summary [OF h1 h2 h3]
  obtain r' where r': "refresh_ingestion_progress_float 29 demo_record = Inr r'"
    by blast
  with demo_float_summary have "statuses r' = [Completed, Completed, In_progress, Pending]"
    "progress r' = 57" "estimated_seconds_remaining r' = 21"
    by (simp_all add: summary_def)
  then show ?thesis
    using h1 h2 r' demo_float_elapsed by simp
qed

text \<open>Half a second after the start the code reports 49 seconds remaining, where the
  ceiling of \<open>50 - elapsed\<close> is 50; 29 seconds after the start it reports progress 57, where
  the floor of \<open>elapsed / 50 * 100\<close> is 58.\<close>

theorem refresh_float_counterexample:
  "map_sum id estimated_seconds_remaining
     (refresh_ingestion_progress_float (1/2) demo_record) = Inr 49 \<and>
   max 10 \<lceil>50 - to_double (1/2 - started_at demo_record)\<rceil> = 50 \<and>
   map_sum id progress (refresh_ingestion_progress_float 29 demo_record) = Inr 57 \<and>
   min 95 \<lfloor>to_double (29 - started_at demo_record) / 50 * 100\<rfloor> = 58"
proof -
  have d: "status demo_record = In_progress" "steps demo_record = initial_steps"
    "started_at demo_record = 0"
    by (simp_all add: demo_record_eq)
  have "map_sum id estimated_seconds_remaining
     (refresh_ingestion_progress_float (1/2) demo_record) = Inr 49"
    using d by (simp add: refresh_float_four [of demo_record] initial_steps_def double_eval
        py_int_def)
  moreover have "max 10 \<lceil>50 - to_double (1/2 - started_at demo_record)\<rceil> = 50"
    using d by (simp add: double_eval)
  moreover have "map_sum id progress (refresh_ingestion_progress_float 29 demo_record) = Inr 57"
    using demo_float_summary d
    by (cases "refresh_ingestion_progress_float 29 demo_record") (simp_all add: summary_def)
  moreover have "min 95 \<lfloor>to_double (29 - started_at demo_record) / 50 * 100\<rfloor> = 58"
    by (simp add: demo_float_elapsed)
  ultimately show ?thesis
    by simp
qed

text \<open>The elapsed times at which the rounded product falls below the exact one, and one at
  which it does not; and the agreement of the two recomputations on status and steps when
  the duration is itself a double.\<close>

lemma float_progress_below_floor:
  "py_int (to_double (to_double (to_double (29/2) / 50) * 100)) = 28 \<and>
     \<lfloor>(29/2 :: real) / 50 * 100\<rfloor> = 29 \<and>
   py_int (to_double (to_double (to_double (57/2) / 50) * 100)) = 56 \<and>
     \<lfloor>(57/2 :: real) / 50 * 100\<rfloor> = 57 \<and>
   py_int (to_double (to_double (to_double 29 / 50) * 100)) = 57 \<and>
     \<lfloor>(29 :: real) / 50 * 100\<rfloor> = 58 \<and>
   py_int (to_double (to_double (to_double 30 / 50) * 100)) = 60 \<and>
     \<lfloor>(30 :: real) / 50 * 100\<rfloor> = 60"
  by (simp add: double_eval py_int_def)

lemma refresh_float_agrees_on_steps:
  assumes "length (steps r) = 4" and "to_double (now - started_at r) = now - started_at r"
  shows "map_sum id (\<lambda>r. (status r, steps r)) (refresh_ingestion_progress_float now r) =
         map_sum id (\<lambda>r. (status r, steps r)) (refresh_ingestion_progress now r)"
proof (cases "status r = In_progress")
  case True
  from assms(1) obtain a b c d where stps: "steps r = [a, b, c, d]"
    using length_four by blast
  show ?thesis
    by (simp add: refresh_float_four [OF True stps] refresh_four [OF True stps] assms(2) Let_def)
next
  case False
  then show ?thesis
    by (simp add: refresh_frozen refresh_ingestion_progress_float_def)
qed

section \<open>Generation jobs: phases and saving\<close>

text \<open>
  Claim C6. For a job that is neither succeeded nor failed, with
  \<open>elapsed = now - createdAt\<close>, the recomputation gives status succeeded exactly when
  \<open>elapsed > 10\<close>, and then the result URL is the fixed prefix followed by the job id;
  running exactly when \<open>2 < elapsed \<le> 10\<close>; queued exactly when \<open>elapsed \<le> 2\<close>. On a
  succeeded or failed job it changes nothing, so a recomputation after success never changes
  the result URL. The job kind is not read: poster and menu-board jobs go through the same
  thresholds.
\<close>

theorem progress_job_phases:
  "(job_status j \<noteq> Succeeded \<and> job_status j \<noteq> Failed \<longrightarrow>
      (job_status (progress_job j kind now) = Succeeded \<longleftrightarrow> now - createdAt j > 10) \<and>
      (now - createdAt j > 10 \<longrightarrow>
         resultUrl (progress_job j kind now) = Some (result_url_prefix @ job_id j)) \<and>
      (now - createdAt j \<le> 10 \<longrightarrow> resultUrl (progress_job j kind now) = resultUrl j) \<and>
      (job_status (progress_job j kind now) = Running \<longleftrightarrow>
         2 < now - createdAt j \<and> now - createdAt j \<le> 10) \<and>
      (job_status (progress_job j kind now) = Queued \<longleftrightarrow> now - createdAt j \<le> 2)) \<and>
   (job_status j = Succeeded \<or> job_status j = Failed \<longrightarrow> progress_job j kind now = j) \<and>
   (job_status (progress_job j kind now) = Succeeded \<longrightarrow>
      progress_job (progress_job j kind now) kind' now' = progress_job j kind now) \<and>
   progress_job j ''poster'' now = progress_job j ''menu'' now \<and>
   (poster_jobs st jid = Some j \<longrightarrow>
      fst (get_poster_job jid now st) = Some (progress_job j ''poster'' now)) \<and>
   (menu_board_jobs st jid = Some j \<longrightarrow>
      fst (get_menu_board_job jid now st) = Some (progress_job j ''menu'' now))"
  by (auto simp add: progress_job_def Let_def get_poster_job_def get_menu_board_job_def)

theorem progress_job_phases_witness:
  "job_status demo_job \<noteq> Succeeded \<and> job_status demo_job \<noteq> Failed \<and>
   job_status (progress_job demo_job ''poster'' 2) = Queued \<and>
   job_status (progress_job demo_job ''poster'' (21/10)) = Running \<and>
   job_status (progress_job demo_job ''poster'' 10) = Running \<and>
   job_status (progress_job demo_job ''menu'' (101/10)) = Succeeded \<and>
   resultUrl (progress_job demo_job ''menu'' (101/10)) =
     Some (result_url_prefix @ ''poster_job_0123456789ab'') \<and>
   progress_job (progress_job demo_job ''menu'' (101/10)) ''menu'' 500 =
     progress_job demo_job ''menu'' (101/10)"
proof -
  have h: "job_status demo_job \<noteq> Succeeded \<and> job_status demo_job \<noteq> Failed"
    and c: "createdAt demo_job = 0" and i: "job_id demo_job = ''poster_job_0123456789ab''"
    by (simp_all add: demo_job_def new_job_def)
  note a = progress_job_phases [of demo_job "''poster''" 2 "''menu''" 500 empty_store "''p1''"]
  note b = progress_job_phases [of demo_job "''poster''" "21/10" "''menu''" 500 empty_store "''p1''"]
  note c10 = progress_job_phases [of demo_job "''poster''" 10 "''menu''" 500 empty_store "''p1''"]
  note d = progress_job_phases [of demo_job "''menu''" "101/10" "''menu''" 500 empty_store "''p1''"]
  have e: "(2::real) - createdAt demo_job \<le> 2" "2 < 21/10 - createdAt demo_job"
    "21/10 - createdAt demo_job \<le> 10" "2 < 10 - createdAt demo_job"
    "10 - createdAt demo_job \<le> 10" "101/10 - createdAt demo_job > 10"
    by (simp_all add: c)
  have "job_status (progress_job demo_job ''poster'' 2) = Queued"
    using a h e by blast
  moreover have "job_status (progress_job demo_job ''poster'' (21/10)) = Running"
    using b h e by blast
  moreover have "job_status (progress_job demo_job ''poster'' 10) = Running"
    using c10 h e by blast
  moreover have s: "job_status (progress_job demo_job ''menu'' (101/10)) = Succeeded"
    using d h e by blast
  moreover have "resultUrl (progress_job demo_job ''menu'' (101/10)) =
      Some (result_url_prefix @ job_id demo_job)"
    using d h e by blast
  moreover have "progress_job (progress_job demo_job ''menu'' (101/10)) ''menu'' 500 =
      progress_job demo_job ''menu'' (101/10)"
    using d s by blast
  ultimately show ?thesis
    using h i by simp
qed

lemma first_store_id: "st_id (stores ! 0) = ''s1''"
  by (simp add: stores_def)

lemma not_finished_fields:
  "job_status (not_finished j) = Failed \<and> error (not_finished j) = Some ''Job is not finished yet.''
   \<and> resultUrl (not_finished j) = resultUrl j \<and> job_id (not_finished j) = job_id j"
  by (simp add: not_finished_def)

text \<open>
  Claim C7. Saving a job of either kind: an unknown id is answered with not found and the
  store is unchanged; a succeeded job is promoted into a stored asset under a new id (the
  headline or ``Generated Poster'' in category poster, ``Menu Board'' in category menu, both
  in the first store) and the new id is returned; any other job becomes failed with the
  error ``Job is not finished yet.'', keeps its result URL, and the caller is told that the
  job is not ready.
\<close>

theorem save_job_outcomes:
  "(poster_jobs st jid = None \<longrightarrow> poster_generation_save_view jid hex st = (Job_not_found, st)) \<and>
   (menu_board_jobs st jid = None \<longrightarrow>
      menu_board_generation_save_view jid hex st = (Job_not_found, st)) \<and>
   (poster_jobs st jid = Some j \<and> job_status j = Succeeded \<longrightarrow>
      poster_generation_save_view jid hex st =
        (Saved (uid ''asset'' hex),
         st\<lparr>assets := (assets st)(uid ''asset'' hex \<mapsto> promoted (poster_name j) ''poster'' hex)\<rparr>)) \<and>
   (menu_board_jobs st jid = Some j \<and> job_status j = Succeeded \<longrightarrow>
      menu_board_generation_save_view jid hex st =
        (Saved (uid ''asset'' hex),
         st\<lparr>assets := (assets st)(uid ''asset'' hex \<mapsto> promoted ''Menu Board'' ''menu'' hex)\<rparr>)) \<and>
   (poster_jobs st jid = Some j \<and> job_status j \<noteq> Succeeded \<longrightarrow>
      poster_generation_save_view jid hex st =
        (Job_not_ready, st\<lparr>poster_jobs := (poster_jobs st)(jid \<mapsto> not_finished j)\<rparr>)) \<and>
   (menu_board_jobs st jid = Some j \<and> job_status j \<noteq> Succeeded \<longrightarrow>
      menu_board_generation_save_view jid hex st =
        (Job_not_ready, st\<lparr>menu_board_jobs := (menu_board_jobs st)(jid \<mapsto> not_finished j)\<rparr>)) \<and>
   job_status (not_finished j) = Failed \<and>
   error (not_finished j) = Some ''Job is not finished yet.'' \<and>
   resultUrl (not_finished j) = resultUrl j"
  by (simp add: poster_generation_save_view_def menu_board_generation_save_view_def
      save_poster_job_def save_menu_board_job_def create_asset_def Let_def promoted_def
      poster_name_def first_store_id not_finished_fields uid_def)

lemma demo_job_store_lookups:
  "poster_jobs demo_job_store ''zz'' = None"
  "poster_jobs demo_job_store ''p1'' = Some demo_job"
  "poster_jobs demo_job_store ''p2'' = Some (progress_job demo_job ''poster'' 11)"
  "menu_board_jobs demo_job_store ''m1'' = Some (demo_job\<lparr>headline := None\<rparr>)"
  "assets demo_job_store = Map.empty"
  by (simp_all add: demo_job_store_def empty_store_def)

lemma demo_job_fields:
  "job_status demo_job = Queued" "createdAt demo_job = 0"
  "headline demo_job = Some ''Grand Opening''"
  "job_status (progress_job demo_job ''poster'' 11) = Succeeded"
  "headline (progress_job demo_job ''poster'' 11) = Some ''Grand Opening''"
  by (simp_all add: demo_job_def new_job_def progress_job_def)

theorem save_job_outcomes_witness:
  "poster_generation_save_view ''zz'' demo_hex demo_job_store = (Job_not_found, demo_job_store) \<and>
   fst (poster_generation_save_view ''p2'' demo_hex demo_job_store) = Saved ''asset_0123456789ab'' \<and>
   assets (snd (poster_generation_save_view ''p2'' demo_hex demo_job_store)) ''asset_0123456789ab'' =
     Some \<lparr>sa_id = ''asset_0123456789ab'', sa_name = ''Grand Opening'', sa_category = ''poster'',
           sa_storeId = ''s1'', sa_url = default_asset_url\<rparr> \<and>
   fst (poster_generation_save_view ''p1'' demo_hex demo_job_store) = Job_not_ready \<and>
   map_option job_status
     (poster_jobs (snd (poster_generation_save_view ''p1'' demo_hex demo_job_store)) ''p1'') =
     Some Failed \<and>
   fst (menu_board_generation_save_view ''m1'' demo_hex demo_job_store) = Job_not_ready"
proof -
  note a = save_job_outcomes [of demo_job_store "''zz''" demo_hex demo_job]
  note b = save_job_outcomes [of demo_job_store "''p2''" demo_hex
      "progress_job demo_job ''poster'' 11"]
  note c = save_job_outcomes [of demo_job_store "''p1''" demo_hex demo_job]
  note d = save_job_outcomes [of demo_job_store "''m1''" demo_hex "demo_job\<lparr>headline := None\<rparr>"]
  have "poster_generation_save_view ''zz'' demo_hex demo_job_store = (Job_not_found, demo_job_store)"
    using a by (simp add: demo_job_store_lookups)
  moreover have "poster_generation_save_view ''p2'' demo_hex demo_job_store =
      (Saved (uid ''asset'' demo_hex),
       demo_job_store\<lparr>assets := (assets demo_job_store)(uid ''asset'' demo_hex \<mapsto>
          promoted (poster_name (progress_job demo_job ''poster'' 11)) ''poster'' demo_hex)\<rparr>)"
    using b by (simp add: demo_job_store_lookups demo_job_fields)
  moreover have "poster_generation_save_view ''p1'' demo_hex demo_job_store =
      (Job_not_ready,
       demo_job_store\<lparr>poster_jobs := (poster_jobs demo_job_store)(''p1'' \<mapsto> not_finished demo_job)\<rparr>)"
    and "job_status (not_finished demo_job) = Failed"
    using c by (simp_all add: demo_job_store_lookups demo_job_fields)
  moreover have "fst (menu_board_generation_save_view ''m1'' demo_hex demo_job_store) = Job_not_ready"
    using d by (simp add: demo_job_store_lookups demo_job_fields)
  ultimately show ?thesis
    by (simp add: uid_def demo_hex_def promoted_def poster_name_def demo_job_fields)
qed

text \<open>
  Claim C10. Saving reads the stored status only. A job that is still stored as queued or
  running more than 10 seconds after its creation (a read at that moment would have made it
  succeeded) is marked failed and answered with not ready, and every later read returns the
  failed job and leaves the store as it is.
\<close>

theorem save_decides_on_stored_status:
  assumes "job_status j = Queued \<or> job_status j = Running" and "now - createdAt j > 10"
  shows "job_status (progress_job j kind now) = Succeeded \<and>
    (poster_jobs st jid = Some j \<longrightarrow>
       poster_generation_save_view jid hex st =
         (Job_not_ready, st\<lparr>poster_jobs := (poster_jobs st)(jid \<mapsto> not_finished j)\<rparr>) \<and>
       (\<forall>now'. get_poster_job jid now' (snd (poster_generation_save_view jid hex st)) =
          (Some (not_finished j), snd (poster_generation_save_view jid hex st)))) \<and>
    (menu_board_jobs st jid = Some j \<longrightarrow>
       menu_board_generation_save_view jid hex st =
         (Job_not_ready, st\<lparr>menu_board_jobs := (menu_board_jobs st)(jid \<mapsto> not_finished j)\<rparr>) \<and>
       (\<forall>now'. get_menu_board_job jid now' (snd (menu_board_generation_save_view jid hex st)) =
          (Some (not_finished j), snd (menu_board_generation_save_view jid hex st)))) \<and>
    job_status (not_finished j) = Failed"
proof -
  have ns: "job_status j \<noteq> Succeeded" "job_status j \<noteq> Failed"
    using assms(1) by auto
  have frozen: "progress_job (not_finished j) k t = not_finished j" for k t
    by (simp add: progress_job_def not_finished_def)
  have "job_status (progress_job j kind now) = Succeeded"
    using ns assms(2) by (simp add: progress_job_def)
  moreover have "poster_jobs st jid = Some j \<Longrightarrow>
       poster_generation_save_view jid hex st =
         (Job_not_ready, st\<lparr>poster_jobs := (poster_jobs st)(jid \<mapsto> not_finished j)\<rparr>)"
    using ns by (simp add: poster_generation_save_view_def save_poster_job_def)
  moreover have "menu_board_jobs st jid = Some j \<Longrightarrow>
       menu_board_generation_save_view jid hex st =
         (Job_not_ready, st\<lparr>menu_board_jobs := (menu_board_jobs st)(jid \<mapsto> not_finished j)\<rparr>)"
    using ns by (simp add: menu_board_generation_save_view_def save_menu_board_job_def)
  ultimately show ?thesis
    by (simp add: get_poster_job_def get_menu_board_job_def frozen not_finished_fields)
qed

theorem save_decides_on_stored_status_witness:
  "(job_status demo_job = Queued \<or> job_status demo_job = Running) \<and>
   (60::real) - createdAt demo_job > 10 \<and>
   job_status (progress_job demo_job ''poster'' 60) = Succeeded \<and>
   fst (poster_generation_save_view ''p1'' demo_hex demo_job_store) = Job_not_ready \<and>
   map_option job_status
     (fst (get_poster_job ''p1'' 3600
        (snd (poster_generation_save_view ''p1'' demo_hex demo_job_store)))) = Some Failed"
proof -
  have h1: "job_status demo_job = Queued \<or> job_status demo_job = Running"
    by (simp add: demo_job_fields)
  have h2: "(60::real) - createdAt demo_job > 10"
    by (simp add: demo_job_fields)
  note t = save_decides_on_stored_status [OF h1 h2, of "''poster''" demo_job_store "''p1''" demo_hex]
  have "job_status (progress_job demo_job ''poster'' 60) = Succeeded"
    using t by blast
  moreover have p: "poster_jobs demo_job_store ''p1'' = Some demo_job"
    by (simp add: demo_job_store_lookups)
  from t p have sv: "poster_generation_save_view ''p1'' demo_hex demo_job_store =
      (Job_not_ready,
       demo_job_store\<lparr>poster_jobs := (poster_jobs demo_job_store)(''p1'' \<mapsto> not_finished demo_job)\<rparr>)"
    by blast
  from t p have "get_poster_job ''p1'' 3600
        (snd (poster_generation_save_view ''p1'' demo_hex demo_job_store)) =
        (Some (not_finished demo_job), snd (poster_generation_save_view ''p1'' demo_hex demo_job_store))"
    by blast
  moreover from t have "job_status (not_finished demo_job) = Failed"
    by blast
  moreover note sv
  ultimately show ?thesis
    using h1 h2 by simp
qed

section \<open>Ingestion records under sequences of operations\<close>

lemma evolves_refl: "evolves r r"
  by (simp add: evolves_def)

lemma evolves_trans: "evolves r r1 \<Longrightarrow> evolves r1 r2 \<Longrightarrow> evolves r r2"
  unfolding evolves_def by (intro conjI; fastforce)

lemma all_pending_ordered: "list_all (\<lambda>s. s = Pending) xs \<Longrightarrow> ordered_statuses xs"
  by (cases xs) auto

lemma ordered_tail: "ordered_statuses (s # xs) \<Longrightarrow> ordered_statuses xs"
  by (cases s) (auto intro: all_pending_ordered)

lemma ordered_begin:
  "ordered_statuses (s # xs) \<Longrightarrow> ordered_statuses ((if s = Pending then In_progress else s) # xs)"
  by (cases s) auto

lemma all_pending_none_running:
  "list_all (\<lambda>s. s = Pending) xs \<Longrightarrow> filter (\<lambda>s. s = In_progress) xs = []"
  by (induction xs) auto

lemma ordered_one_running:
  "ordered_statuses xs \<Longrightarrow> length (filter (\<lambda>s. s = In_progress) xs) \<le> 1"
proof (induction xs)
  case Nil
  then show ?case by simp
next
  case (Cons s xs)
  then show ?case
    by (cases s) (auto simp: all_pending_none_running)
qed

lemma step_status_begin:
  "step_status (begin_step a) = (if step_status a = Pending then In_progress else step_status a)"
  by (simp add: begin_step_def)

lemma selection_in_sync_cong:
  "selected_asset_ids r' = selected_asset_ids r \<Longrightarrow> asset_groups r' = asset_groups r \<Longrightarrow>
   selection_in_sync r' = selection_in_sync r"
  by (simp add: selection_in_sync_def)

lemma refresh_total:
  assumes "length (steps r) = 4"
  shows "\<exists>r'. refresh_ingestion_progress now r = Inr r' \<and> length (steps r') = 4 \<and>
     started_at r' = started_at r \<and> selected_asset_ids r' = selected_asset_ids r \<and>
     asset_groups r' = asset_groups r"
proof (cases "status r = In_progress")
  case True
  from assms obtain a b c d where stps: "steps r = [a, b, c, d]"
    using length_four by blast
  show ?thesis
    by (simp add: refresh_four [OF True stps] Let_def)
next
  case False
  then show ?thesis
    using assms by (simp add: refresh_frozen)
qed

lemma evolves_refresh:
  assumes "length (steps r) = 4" and "refresh_ingestion_progress now r = Inr r'"
  shows "evolves r r'"
proof (cases "status r = In_progress")
  case False
  with assms(2) have "r' = r" by (simp add: refresh_frozen)
  then show ?thesis by (simp add: evolves_refl)
next
  case True
  from assms(1) obtain a b c d where stps: "steps r = [a, b, c, d]"
    using length_four by blast
  define e where "e = now - started_at r"
  note rf = refresh_four [OF True stps, of now, folded e_def]
  have sync: "selection_in_sync r' = selection_in_sync r"
    using assms(2) rf
    by (intro selection_in_sync_cong) (auto simp: Let_def split: if_splits)
  have cons: "steps_consistent r'" if sc: "steps_consistent r"
  proof -
    from sc True have o1: "ordered_statuses [step_status a, step_status b, step_status c, step_status d]"
      by (simp add: steps_consistent_def statuses_def stps)
    then have o2: "ordered_statuses [step_status b, step_status c, step_status d]"
      by (rule ordered_tail)
    then have o3: "ordered_statuses [step_status c, step_status d]"
      by (rule ordered_tail)
    then have o4: "ordered_statuses [step_status d]"
      by (rule ordered_tail)
    show ?thesis
      using assms(2) rf ordered_begin [OF o1] ordered_begin [OF o2] ordered_begin [OF o3]
        ordered_begin [OF o4]
      by (auto simp: Let_def steps_consistent_def statuses_def in_progress_count_def
          step_status_begin split: if_splits)
  qed
  have rest: "length (steps r') = 4 \<and>
      (\<forall>i < 4. step_status (steps r ! i) = Completed \<longrightarrow>
          step_status (steps r' ! i) = Completed) \<and>
      (\<forall>i < 4. step_status (steps r ! i) = Canceled \<longrightarrow>
          step_status (steps r' ! i) = Canceled \<or> step_status (steps r' ! i) = Completed)"
    using assms(2) rf
    by (auto simp: Let_def stps less_four step_status_begin split: if_splits)
  show ?thesis
    using rest cons sync True by (simp add: evolves_def assms(1))
qed

lemma evolves_cancel: "evolves r (cancel_record r)"
proof -
  have "filter (\<lambda>s. s = In_progress)
          (map step_status (map (\<lambda>stp. if step_status stp = In_progress
                 then set_step_status Canceled stp else stp) xs)) = []" for xs
    by (induction xs) auto
  then have "steps_consistent (cancel_record r)"
    by (simp add: steps_consistent_def cancel_record_def in_progress_count_def statuses_def)
  moreover have "selection_in_sync (cancel_record r) = selection_in_sync r"
    by (simp add: selection_in_sync_def cancel_record_def)
  ultimately show ?thesis
    by (simp add: evolves_def cancel_record_def)
qed

lemma evolves_complete: "evolves r (complete_record r)"
proof -
  have "filter (\<lambda>s. s = In_progress) (map step_status (map (set_step_status Completed) xs)) = []"
    for xs
    by (induction xs) auto
  then have "steps_consistent (complete_record r)"
    by (simp add: steps_consistent_def complete_record_def in_progress_count_def statuses_def)
  moreover have "selection_in_sync (complete_record r) = selection_in_sync r"
    by (simp add: selection_in_sync_def complete_record_def)
  ultimately show ?thesis
    by (simp add: evolves_def complete_record_def)
qed

lemma select_record_in_sync: "selection_in_sync (select_record ids r)"
  by (simp add: selection_in_sync_def select_record_def Let_def list_all_iff)

lemma evolves_select: "evolves r (select_record ids r)"
  using select_record_in_sync [of ids r]
  by (simp add: evolves_def select_record_def Let_def steps_consistent_def statuses_def
      in_progress_count_def)

lemma ensure_user_state_ingestions [simp]:
  "ingestions (ensure_user_state u st) = ingestions st"
  "assets (ensure_user_state u st) = assets st"
  by (simp_all add: ensure_user_state_def Let_def)

lemma link_store_ingestions [simp]:
  "ingestions (link_store u sid st) = ingestions st"
  "assets (link_store u sid st) = assets st"
  by (simp_all add: link_store_def Let_def split: option.splits)

lemma fold_link_store_ingestions:
  "ingestions (fold (\<lambda>u s. link_store u sid s) us st) = ingestions st \<and>
   assets (fold (\<lambda>u s. link_store u sid s) us st) = assets st"
  by (induction us arbitrary: st) simp_all

lemma link_store_for_asset_ingestions [simp]:
  "ingestions (link_store_for_asset sid st) = ingestions st"
  "assets (link_store_for_asset sid st) = assets st"
  by (simp_all add: link_store_for_asset_def fold_link_store_ingestions)

lemma finalize_ingestions:
  "ingestions (snd (finalize_ingestion i st)) =
     (case ingestions st i of None \<Rightarrow> ingestions st
      | Some r \<Rightarrow> (ingestions st)(i \<mapsto> complete_record r))"
  by (simp add: finalize_ingestion_def Let_def split: option.splits)

lemma wf_store_update:
  "wf_store st \<Longrightarrow> length (steps r) = 4 \<Longrightarrow> ingestions st' = (ingestions st)(i \<mapsto> r) \<Longrightarrow>
   wf_store st'"
  unfolding wf_store_def ran_def by (auto split: if_splits)

lemma wf_store_lookup: "wf_store st \<Longrightarrow> ingestions st i = Some r \<Longrightarrow> length (steps r) = 4"
  unfolding wf_store_def ran_def by auto

lemma apply_op_evolves:
  assumes "wf_store st" and "ingestions st iid = Some r"
  shows "\<exists>st' r'. apply_op x st = Inr st' \<and> wf_store st' \<and> ingestions st' iid = Some r' \<and>
           evolves r r'"
proof (cases x)
  case (Get_ingestion i now)
  show ?thesis
  proof (cases "ingestions st i")
    case None
    then show ?thesis
      using assms Get_ingestion by (auto simp: get_ingestion_def evolves_refl)
  next
    case (Some q)
    then have lq: "length (steps q) = 4"
      using assms(1) wf_store_lookup by blast
    from refresh_total [OF lq, of now]
    obtain q' where q': "refresh_ingestion_progress now q = Inr q'" and lq': "length (steps q') = 4"
      by blast
    let ?st' = "st\<lparr>ingestions := (ingestions st)(i \<mapsto> q')\<rparr>"
    have ap: "apply_op x st = Inr ?st'"
      using Get_ingestion Some q' by (simp add: get_ingestion_def)
    have wf: "wf_store ?st'"
      using assms(1) lq' by (rule wf_store_update) simp
    show ?thesis
    proof (cases "i = iid")
      case True
      with Some assms(2) have "q = r" by simp
      then have "evolves r q'"
        using evolves_refresh lq q' by blast
      then show ?thesis
        using ap wf True by simp
    next
      case False
      then show ?thesis
        using ap wf assms(2) by (simp add: evolves_refl)
    qed
  qed
next
  case (Cancel_ingestion i)
  show ?thesis
  proof (cases "ingestions st i")
    case None
    then show ?thesis
      using assms Cancel_ingestion by (auto simp: cancel_ingestion_def evolves_refl)
  next
    case (Some q)
    then have lq: "length (steps q) = 4"
      using assms(1) wf_store_lookup by blast
    let ?st' = "st\<lparr>ingestions := (ingestions st)(i \<mapsto> cancel_record q)\<rparr>"
    have ap: "apply_op x st = Inr ?st'"
      using Cancel_ingestion Some by (simp add: cancel_ingestion_def)
    have "length (steps (cancel_record q)) = 4"
      using lq by (simp add: cancel_record_def)
    with assms(1) have wf: "wf_store ?st'"
      by (rule wf_store_update) simp
    show ?thesis
    proof (cases "i = iid")
      case True
      with Some assms(2) have "q = r" by simp
      then show ?thesis
        using ap wf True evolves_cancel [of r] by simp
    next
      case False
      then show ?thesis
        using ap wf assms(2) by (simp add: evolves_refl)
    qed
  qed
next
  case (Record_selection i ids)
  show ?thesis
  proof (cases "ingestions st i")
    case None
    then show ?thesis
      using assms Record_selection by (auto simp: record_selection_def evolves_refl)
  next
    case (Some q)
    then have lq: "length (steps q) = 4"
      using assms(1) wf_store_lookup by blast
    let ?st' = "st\<lparr>ingestions := (ingestions st)(i \<mapsto> select_record ids q)\<rparr>"
    have ap: "apply_op x st = Inr ?st'"
      using Record_selection Some by (simp add: record_selection_def)
    have "length (steps (select_record ids q)) = 4"
      using lq by (simp add: select_record_def Let_def)
    with assms(1) have wf: "wf_store ?st'"
      by (rule wf_store_update) simp
    show ?thesis
    proof (cases "i = iid")
      case True
      with Some assms(2) have "q = r" by simp
      then show ?thesis
        using ap wf True evolves_select [of r ids] by simp
    next
      case False
      then show ?thesis
        using ap wf assms(2) by (simp add: evolves_refl)
    qed
  qed
next
  case (Finalize_ingestion i)
  show ?thesis
  proof (cases "ingestions st i")
    case None
    then show ?thesis
      using assms Finalize_ingestion by (auto simp: finalize_ingestion_def evolves_refl)
  next
    case (Some q)
    then have lq: "length (steps q) = 4"
      using assms(1) wf_store_lookup by blast
    let ?st' = "snd (finalize_ingestion i st)"
    have ap: "apply_op x st = Inr ?st'"
      using Finalize_ingestion by simp
    have ing: "ingestions ?st' = (ingestions st)(i \<mapsto> complete_record q)"
      using Some by (simp add: finalize_ingestions)
    have "length (steps (complete_record q)) = 4"
      using lq by (simp add: complete_record_def)
    with assms(1) have wf: "wf_store ?st'"
      using ing by (rule wf_store_update)
    show ?thesis
    proof (cases "i = iid")
      case True
      with Some assms(2) have "q = r" by simp
      then show ?thesis
        using ap wf True ing evolves_complete [of r] by simp
    next
      case False
      then show ?thesis
        using ap wf ing assms(2) by (simp add: evolves_refl)
    qed
  qed
qed

lemma run_ops_evolves:
  assumes "wf_store st" and "ingestions st iid = Some r"
  shows "\<exists>st' r'. run_ops xs st = Inr st' \<and> wf_store st' \<and> ingestions st' iid = Some r' \<and>
           evolves r r'"
  using assms
proof (induction xs arbitrary: st r)
  case Nil
  then show ?case by (simp add: evolves_refl)
next
  case (Cons x xs)
  from apply_op_evolves [OF Cons.prems, of x]
  obtain st1 r1 where s1: "apply_op x st = Inr st1" "wf_store st1" "ingestions st1 iid = Some r1"
    "evolves r r1"
    by blast
  from Cons.IH [OF s1(2) s1(3)]
  obtain st' r' where s2: "run_ops xs st1 = Inr st'" "wf_store st'" "ingestions st' iid = Some r'"
    "evolves r1 r'"
    by blast
  from s1(4) s2(4) have "evolves r r'"
    by (rule evolves_trans)
  then show ?case
    using s1(1) s2 by simp
qed

lemma str_nat_digits: "str_nat (Suc 0) = ''1''" "str_nat 2 = ''2''"
  by (simp_all add: str_nat.simps)

lemma one_two: "[Suc 0..<3] = [Suc 0, 2]"
  by (simp add: upt_rec)

lemma build_ingestion_assets_flags:
  "map (\<lambda>g. map (\<lambda>a. (asset_id a, selected a)) (group_assets g)) (build_ingestion_assets sid) =
     [[(''logo_1_'' @ sid, True), (''logo_2_'' @ sid, False)],
      [(''menu_1_'' @ sid, True), (''menu_2_'' @ sid, False)],
      [(''products_1_'' @ sid, True), (''products_2_'' @ sid, False)],
      [(''interior_1_'' @ sid, True), (''interior_2_'' @ sid, False)]]"
  by (simp add: build_ingestion_assets_def categories_def build_asset_def one_two str_nat_digits)

lemma demo_store_lookup: "ingestions demo_store demo_id = Some demo_record"
  by (simp add: demo_store_def demo_record_def demo_id_def start_ingestion_def Let_def uid_def
      demo_hex_def)

lemma demo_flags:
  "asset_flags demo_record =
     [[(''logo_1_s1'', True), (''logo_2_s1'', False)],
      [(''menu_1_s1'', True), (''menu_2_s1'', False)],
      [(''products_1_s1'', True), (''products_2_s1'', False)],
      [(''interior_1_s1'', True), (''interior_2_s1'', False)]]"
  using build_ingestion_assets_flags [of "''s1''"]
  by (simp add: asset_flags_def demo_record_eq)

lemma asset_flags_select:
  "asset_flags (select_record ids r) = map (map (\<lambda>(i, _). (i, i \<in> set ids))) (asset_flags r)"
  by (simp add: asset_flags_def select_record_def Let_def comp_def)

lemma selection_in_sync_flags:
  "selection_in_sync r =
     list_all (list_all (\<lambda>(i, b). b = (i \<in> selected_asset_ids r))) (asset_flags r)"
  by (simp add: selection_in_sync_def asset_flags_def list_all_iff)

text \<open>The record returned by \<open>start_ingestion\<close> has an empty selection set and a
  flagged first logo.\<close>

theorem start_ingestion_selection_counterexample:
  "selected_asset_ids demo_record = {} \<and>
   asset_flags demo_record ! 0 ! 0 = (''logo_1_s1'', True) \<and>
   \<not> selection_in_sync demo_record"
  by (simp add: selection_in_sync_flags demo_flags) (simp add: demo_record_eq)

lemma wf_store_empty: "wf_store empty_store"
  by (simp add: wf_store_def empty_store_def)

lemma start_ingestion_record:
  "fst (start_ingestion sid now hex st) =
     \<lparr>rec_id = uid ''ing'' hex, store_id = sid, status = In_progress, progress = 5,
      steps = initial_steps, estimated_seconds_remaining = 90, started_at = now,
      selected_asset_ids = {}, asset_groups = build_ingestion_assets sid\<rparr> \<and>
   ingestions (snd (start_ingestion sid now hex st)) =
     (ingestions st)(uid ''ing'' hex \<mapsto> fst (start_ingestion sid now hex st))"
  by (simp add: start_ingestion_def Let_def)

lemma wf_store_start: "wf_store st \<Longrightarrow> wf_store (snd (start_ingestion sid now hex st))"
  by (rule wf_store_update [where r = "fst (start_ingestion sid now hex st)"])
     (simp_all add: start_ingestion_record initial_steps_def)

lemma wf_store_demo: "wf_store demo_store"
  unfolding demo_store_def by (rule wf_store_start [OF wf_store_empty])

lemma steps_consistent_start: "steps_consistent (fst (start_ingestion sid now hex st))"
  by (simp add: start_ingestion_record steps_consistent_def statuses_def initial_steps_def)

lemma steps_consistent_demo: "steps_consistent demo_record"
  unfolding demo_record_def by (rule steps_consistent_start)

lemma steps_consistent_count: "steps_consistent r \<Longrightarrow> in_progress_count r \<le> 1"
  using ordered_one_running [of "statuses r"]
  by (auto simp: steps_consistent_def in_progress_count_def split: if_splits)

lemma get_ingestion_frozen:
  assumes "ingestions st iid = Some r" and "status r \<noteq> In_progress"
  shows "get_ingestion iid now st = Inr (Some r, st)"
proof -
  have "(ingestions st)(iid \<mapsto> r) = ingestions st"
    using assms(1) by (rule map_upd_triv)
  then show ?thesis
    using assms by (simp add: get_ingestion_def refresh_frozen)
qed

text \<open>
  Claim C3, as the code has it. In a store whose ingestions have their four steps, every
  sequence of reads (recomputations), cancellations, selections and finalizations, on any
  ingestion ids and at any clock readings, runs without error, and for every ingestion of
  the store: a completed step stays completed; a canceled step stays canceled or becomes
  completed (it never goes back to pending or in progress); once the status of the record
  is not in progress it never is again; if the steps started in the shape of a running
  ingestion, at most one step is in progress afterwards; and a record that is not in
  progress is frozen under recomputation at any time. The status of a record that has left
  in progress can still change: finalization completes a canceled ingestion.
\<close>

theorem ingestion_statuses_under_operations:
  assumes "wf_store st" and "ingestions st iid = Some r"
  shows "\<exists>st' r'. run_ops xs st = Inr st' \<and> ingestions st' iid = Some r' \<and>
     length (steps r') = length (steps r) \<and>
     (\<forall>i < length (steps r). step_status (steps r ! i) = Completed \<longrightarrow>
          step_status (steps r' ! i) = Completed) \<and>
     (\<forall>i < length (steps r). step_status (steps r ! i) = Canceled \<longrightarrow>
          step_status (steps r' ! i) = Canceled \<or> step_status (steps r' ! i) = Completed) \<and>
     (status r \<noteq> In_progress \<longrightarrow> status r' \<noteq> In_progress) \<and>
     (steps_consistent r \<longrightarrow> in_progress_count r' \<le> 1) \<and>
     (status r' \<noteq> In_progress \<longrightarrow> (\<forall>now. get_ingestion iid now st' = Inr (Some r', st')))"
proof -
  from run_ops_evolves [OF assms, of xs]
  obtain st' r' where run: "run_ops xs st = Inr st'" and look: "ingestions st' iid = Some r'"
    and ev: "evolves r r'"
    by blast
  have "steps_consistent r \<longrightarrow> in_progress_count r' \<le> 1"
    using ev steps_consistent_count by (simp add: evolves_def)
  moreover have "status r' \<noteq> In_progress \<longrightarrow>
      (\<forall>now. get_ingestion iid now st' = Inr (Some r', st'))"
    using look get_ingestion_frozen by blast
  ultimately show ?thesis
    using run look ev unfolding evolves_def by blast
qed

theorem ingestion_statuses_under_operations_witness:
  "wf_store demo_store \<and> ingestions demo_store demo_id = Some demo_record \<and>
   steps_consistent demo_record \<and>
   (\<exists>st' r'. run_ops [Get_ingestion demo_id 20, Cancel_ingestion demo_id,
                       Get_ingestion demo_id 60] demo_store = Inr st' \<and>
      ingestions st' demo_id = Some r' \<and> length (steps r') = 4 \<and> in_progress_count r' \<le> 1)"
proof -
  from ingestion_statuses_under_operations [OF wf_store_demo demo_store_lookup,
    of "[Get_ingestion demo_id 20, Cancel_ingestion demo_id, Get_ingestion demo_id 60]"]
  obtain st' r' where
    "run_ops [Get_ingestion demo_id 20, Cancel_ingestion demo_id, Get_ingestion demo_id 60]
       demo_store = Inr st'"
    "ingestions st' demo_id = Some r'" "length (steps r') = length (steps demo_record)"
    "steps_consistent demo_record \<longrightarrow> in_progress_count r' \<le> 1"
    by blast
  moreover have "length (steps demo_record) = 4"
    by (simp add: demo_record_eq initial_steps_def)
  ultimately show ?thesis
    using wf_store_demo demo_store_lookup steps_consistent_demo by auto
qed

lemma cancel_ingestions:
  "ingestions (snd (cancel_ingestion i st)) =
     (case ingestions st i of None \<Rightarrow> ingestions st
      | Some r \<Rightarrow> (ingestions st)(i \<mapsto> cancel_record r))"
  by (simp add: cancel_ingestion_def split: option.splits)

text \<open>A canceled ingestion does not keep its status: finalizing it makes the record and
  its canceled step completed.\<close>

theorem canceled_then_finalized_counterexample:
  "map_option status (ingestions (snd (cancel_ingestion demo_id demo_store)) demo_id) =
     Some Canceled \<and>
   map_option statuses (ingestions (snd (cancel_ingestion demo_id demo_store)) demo_id) =
     Some [Canceled, Pending, Pending, Pending] \<and>
   map_option status
     (ingestions (snd (finalize_ingestion demo_id (snd (cancel_ingestion demo_id demo_store))))
        demo_id) = Some Completed \<and>
   map_option statuses
     (ingestions (snd (finalize_ingestion demo_id (snd (cancel_ingestion demo_id demo_store))))
        demo_id) = Some [Completed, Completed, Completed, Completed]"
  by (simp add: finalize_ingestions cancel_ingestions demo_store_lookup statuses_def
      cancel_record_def complete_record_def demo_record_eq initial_steps_def set_step_status_def)

lemma start_view_ingestions:
  assumes "get_store sid \<noteq> None"
  shows "ingestions (snd (store_ingestion_start_view u sid now hex st)) =
     (ingestions st)(uid ''ing'' hex \<mapsto>
        select_record (flagged_ids (fst (start_ingestion sid now hex (link_store u sid st))))
          (fst (start_ingestion sid now hex (link_store u sid st))))"
  using assms
  by (auto simp: store_ingestion_start_view_def start_ingestion_def record_selection_def Let_def
      split: option.splits prod.splits)

text \<open>
  Claim C8, as the code has it. \<open>record_selection\<close> makes every asset's flag equal to the
  membership of its id in \<open>selected_asset_ids\<close>, on any record, and recomputation,
  cancellation, selection and finalization keep the two in agreement; the start view, which
  calls \<open>record_selection\<close> with the flagged assets right after \<open>start_ingestion\<close>,
  establishes the agreement for the new ingestion. \<open>start_ingestion\<close> alone does not: it
  leaves the set empty and flags the first variant of every category.
\<close>

theorem selection_in_sync_maintained:
  assumes "wf_store st"
  shows "(ingestions st iid = Some r \<longrightarrow>
            (\<exists>st' r'. run_ops (Record_selection iid ids # xs) st = Inr st' \<and>
               ingestions st' iid = Some r' \<and> selection_in_sync r')) \<and>
         (ingestions st iid = Some r \<and> selection_in_sync r \<longrightarrow>
            (\<exists>st' r'. run_ops xs st = Inr st' \<and> ingestions st' iid = Some r' \<and>
               selection_in_sync r')) \<and>
         (get_store sid \<noteq> None \<longrightarrow>
            (\<exists>st' r'. run_ops xs (snd (store_ingestion_start_view u sid now hex st)) = Inr st' \<and>
               ingestions st' (uid ''ing'' hex) = Some r' \<and> selection_in_sync r'))"
proof (intro conjI impI)
  assume look: "ingestions st iid = Some r"
  let ?st1 = "snd (record_selection iid ids st)"
  have i1: "ingestions ?st1 = (ingestions st)(iid \<mapsto> select_record ids r)"
    using look by (simp add: record_selection_def)
  have "length (steps (select_record ids r)) = 4"
    using wf_store_lookup [OF assms look] by (simp add: select_record_def Let_def)
  with assms have wf1: "wf_store ?st1"
    using i1 by (rule wf_store_update)
  have l1: "ingestions ?st1 iid = Some (select_record ids r)"
    by (simp add: i1)
  from run_ops_evolves [OF wf1 l1, of xs]
  obtain st' r' where "run_ops xs ?st1 = Inr st'" "ingestions st' iid = Some r'"
    "evolves (select_record ids r) r'"
    by blast
  then show "\<exists>st' r'. run_ops (Record_selection iid ids # xs) st = Inr st' \<and>
            ingestions st' iid = Some r' \<and> selection_in_sync r'"
    using select_record_in_sync [of ids r] by (auto simp: evolves_def)
next
  assume "ingestions st iid = Some r \<and> selection_in_sync r"
  then show "\<exists>st' r'. run_ops xs st = Inr st' \<and> ingestions st' iid = Some r' \<and>
               selection_in_sync r'"
    using run_ops_evolves [OF assms, of iid r xs] by (auto simp: evolves_def)
next
  assume g: "get_store sid \<noteq> None"
  let ?r0 = "fst (start_ingestion sid now hex (link_store u sid st))"
  let ?st1 = "snd (store_ingestion_start_view u sid now hex st)"
  have "length (steps (select_record (flagged_ids ?r0) ?r0)) = 4"
    by (simp add: select_record_def Let_def start_ingestion_record initial_steps_def)
  with assms have wf1: "wf_store ?st1"
    using start_view_ingestions [OF g] by (rule wf_store_update)
  have l1: "ingestions ?st1 (uid ''ing'' hex) = Some (select_record (flagged_ids ?r0) ?r0)"
    by (simp add: start_view_ingestions [OF g])
  from run_ops_evolves [OF wf1 l1, of xs]
  obtain st' r' where "run_ops xs ?st1 = Inr st'" "ingestions st' (uid ''ing'' hex) = Some r'"
    "evolves (select_record (flagged_ids ?r0) ?r0) r'"
    by blast
  then show "\<exists>st' r'. run_ops xs ?st1 = Inr st' \<and>
               ingestions st' (uid ''ing'' hex) = Some r' \<and> selection_in_sync r'"
    using select_record_in_sync [of "flagged_ids ?r0" ?r0] by (auto simp: evolves_def)
qed

lemma get_store_s1: "get_store ''s1'' \<noteq> None"
  by (simp add: get_store_def stores_def)

lemma demo_id_uid: "uid ''ing'' demo_hex = demo_id"
  by (simp add: uid_def demo_hex_def demo_id_def)

theorem selection_in_sync_maintained_witness:
  "wf_store empty_store \<and> get_store ''s1'' \<noteq> None \<and>
   (\<exists>st' r'. run_ops [Get_ingestion demo_id 20, Finalize_ingestion demo_id]
                (snd (store_ingestion_start_view 7 ''s1'' 0 demo_hex empty_store)) = Inr st' \<and>
      ingestions st' demo_id = Some r' \<and> selection_in_sync r') \<and>
   ingestions demo_store demo_id = Some demo_record \<and>
   (\<exists>st' r'. run_ops [Record_selection demo_id [''menu_2_s1''], Cancel_ingestion demo_id]
                demo_store = Inr st' \<and>
      ingestions st' demo_id = Some r' \<and> selection_in_sync r')"
proof -
  note a = selection_in_sync_maintained [OF wf_store_empty,
      of demo_id demo_record "[]" "[Get_ingestion demo_id 20, Finalize_ingestion demo_id]"
         "''s1''" 7 0 demo_hex]
  note b = selection_in_sync_maintained [OF wf_store_demo,
      of demo_id demo_record "[''menu_2_s1'']" "[Cancel_ingestion demo_id]"
         "''s1''" 7 0 demo_hex]
  from a have "\<exists>st' r'. run_ops [Get_ingestion demo_id 20, Finalize_ingestion demo_id]
                (snd (store_ingestion_start_view 7 ''s1'' 0 demo_hex empty_store)) = Inr st' \<and>
      ingestions st' demo_id = Some r' \<and> selection_in_sync r'"
    using get_store_s1 by (simp add: demo_id_uid)
  moreover from b have "\<exists>st' r'.
      run_ops [Record_selection demo_id [''menu_2_s1''], Cancel_ingestion demo_id]
                demo_store = Inr st' \<and>
      ingestions st' demo_id = Some r' \<and> selection_in_sync r'"
    using demo_store_lookup by blast
  ultimately show ?thesis
    using wf_store_empty get_store_s1 demo_store_lookup by blast
qed

section \<open>Selection and finalization\<close>

lemma select_record_fields:
  "selected_asset_ids (select_record ids r) = set ids"
  "select_record ids r\<lparr>selected_asset_ids := selected_asset_ids r,
      asset_groups := asset_groups r\<rparr> = r"
  by (simp_all add: select_record_def Let_def)

lemma select_record_flags:
  "g \<in> set (asset_groups (select_record ids r)) \<Longrightarrow> a \<in> set (group_assets g) \<Longrightarrow>
   selected a \<longleftrightarrow> asset_id a \<in> set ids"
  by (auto simp: select_record_def Let_def)

text \<open>
  Claim C9. On a known ingestion, \<open>record_selection\<close> returns the set of the given ids and
  stores it as the record's selection, whatever the previous selection was; afterwards every
  asset's flag is the membership of its id in that set, the assets and everything else in
  the record are as before, so an id that belongs to no asset stays in the set and shows on
  no asset. On an unknown ingestion id it returns nothing and the store is unchanged.
\<close>

theorem record_selection_replaces_selection:
  "(ingestions st iid = None \<longrightarrow> record_selection iid ids st = (None, st)) \<and>
   (ingestions st iid = Some r \<longrightarrow>
      (\<exists>r'. record_selection iid ids st =
               (Some (set ids), st\<lparr>ingestions := (ingestions st)(iid \<mapsto> r')\<rparr>) \<and>
         selected_asset_ids r' = set ids \<and>
         asset_flags r' = map (map (\<lambda>(i, _). (i, i \<in> set ids))) (asset_flags r) \<and>
         (\<forall>g \<in> set (asset_groups r'). \<forall>a \<in> set (group_assets g).
             selected a \<longleftrightarrow> asset_id a \<in> set ids) \<and>
         r'\<lparr>selected_asset_ids := selected_asset_ids r, asset_groups := asset_groups r\<rparr> = r))"
proof (intro conjI impI)
  assume "ingestions st iid = None"
  then show "record_selection iid ids st = (None, st)"
    by (simp add: record_selection_def)
next
  assume look: "ingestions st iid = Some r"
  have "record_selection iid ids st =
      (Some (set ids), st\<lparr>ingestions := (ingestions st)(iid \<mapsto> select_record ids r)\<rparr>)"
    using look by (simp add: record_selection_def select_record_fields)
  then show "\<exists>r'. record_selection iid ids st =
               (Some (set ids), st\<lparr>ingestions := (ingestions st)(iid \<mapsto> r')\<rparr>) \<and>
         selected_asset_ids r' = set ids \<and>
         asset_flags r' = map (map (\<lambda>(i, _). (i, i \<in> set ids))) (asset_flags r) \<and>
         (\<forall>g \<in> set (asset_groups r'). \<forall>a \<in> set (group_assets g).
             selected a \<longleftrightarrow> asset_id a \<in> set ids) \<and>
         r'\<lparr>selected_asset_ids := selected_asset_ids r, asset_groups := asset_groups r\<rparr> = r"
    using asset_flags_select [where ids = ids and r = r] select_record_fields [where ids = ids and r = r]
      select_record_flags [where ids = ids and r = r]
    by (intro exI [of _ "select_record ids r"]) simp
qed

lemma demo_store_unknown: "ingestions demo_store ''ing_unknown'' = None"
  by (simp add: demo_store_def start_ingestion_def Let_def uid_def demo_hex_def empty_store_def)

theorem record_selection_replaces_selection_witness:
  "ingestions demo_store demo_id = Some demo_record \<and>
   fst (record_selection demo_id [''logo_1_s1'', ''ghost''] demo_store) =
     Some {''logo_1_s1'', ''ghost''} \<and>
   map_option asset_flags
     (ingestions (snd (record_selection demo_id [''logo_1_s1'', ''ghost''] demo_store)) demo_id) =
     Some [[(''logo_1_s1'', True), (''logo_2_s1'', False)],
           [(''menu_1_s1'', False), (''menu_2_s1'', False)],
           [(''products_1_s1'', False), (''products_2_s1'', False)],
           [(''interior_1_s1'', False), (''interior_2_s1'', False)]] \<and>
   record_selection ''ing_unknown'' [''logo_1_s1''] demo_store = (None, demo_store)"
proof -
  note a = record_selection_replaces_selection
      [where st = demo_store and iid = demo_id and ids = "[''logo_1_s1'', ''ghost'']"
         and r = demo_record]
  note b = record_selection_replaces_selection
      [where st = demo_store and iid = "''ing_unknown''" and ids = "[''logo_1_s1'']"
         and r = demo_record]
  from a [THEN conjunct2, rule_format, OF demo_store_lookup] obtain r' where
    r': "record_selection demo_id [''logo_1_s1'', ''ghost''] demo_store =
          (Some (set [''logo_1_s1'', ''ghost'']),
           demo_store\<lparr>ingestions := (ingestions demo_store)(demo_id \<mapsto> r')\<rparr>)"
    and fl: "asset_flags r' =
          map (map (\<lambda>(i, _). (i, i \<in> set [''logo_1_s1'', ''ghost'']))) (asset_flags demo_record)"
    by (elim exE conjE)
  have fl': "asset_flags r' =
       [[(''logo_1_s1'', True), (''logo_2_s1'', False)],
        [(''menu_1_s1'', False), (''menu_2_s1'', False)],
        [(''products_1_s1'', False), (''products_2_s1'', False)],
        [(''interior_1_s1'', False), (''interior_2_s1'', False)]]"
    unfolding fl demo_flags by simp
  have u: "record_selection ''ing_unknown'' [''logo_1_s1''] demo_store = (None, demo_store)"
    using b [THEN conjunct1, rule_format, OF demo_store_unknown] .
  show ?thesis
    by (simp add: demo_store_lookup r' fl' u)
qed

lemma put_asset_apply:
  "put_asset a m k = (if k = sa_id a then Some a else m k)"
  by (simp add: put_asset_def)

lemma fold_put_other:
  "k \<notin> (\<lambda>a. sa_id (g a)) ` set xs \<Longrightarrow> fold (\<lambda>a. put_asset (g a)) xs m k = m k"
  by (induction xs arbitrary: m) (auto simp: put_asset_apply)

lemma fold_put_last:
  "k \<in> (\<lambda>a. sa_id (g a)) ` set xs \<Longrightarrow>
   \<exists>b \<in> set xs. sa_id (g b) = k \<and> fold (\<lambda>a. put_asset (g a)) xs m k = Some (g b)"
proof (induction xs arbitrary: m)
  case Nil
  then show ?case by simp
next
  case (Cons x xs)
  show ?case
  proof (cases "k \<in> (\<lambda>a. sa_id (g a)) ` set xs")
    case True
    from Cons.IH [OF True, of "put_asset (g x) m"]
    show ?thesis by auto
  next
    case False
    with Cons.prems have kx: "sa_id (g x) = k"
      by auto
    from False have "fold (\<lambda>a. put_asset (g a)) xs (put_asset (g x) m) k = put_asset (g x) m k"
      by (rule fold_put_other)
    moreover have "put_asset (g x) m k = Some (g x)"
      using kx by (simp add: put_asset_apply)
    ultimately show ?thesis
      using kx by simp
  qed
qed

lemma fold_put_distinct:
  "distinct (map (\<lambda>a. sa_id (g a)) xs) \<Longrightarrow> a \<in> set xs \<Longrightarrow>
   fold (\<lambda>a. put_asset (g a)) xs m (sa_id (g a)) = Some (g a)"
proof (induction xs arbitrary: m)
  case Nil
  then show ?case by simp
next
  case (Cons x xs)
  show ?case
  proof (cases "a = x")
    case True
    with Cons.prems(1) have "sa_id (g a) \<notin> (\<lambda>a. sa_id (g a)) ` set xs"
      by auto
    then have "fold (\<lambda>a. put_asset (g a)) xs (put_asset (g x) m) (sa_id (g a))
        = put_asset (g x) m (sa_id (g a))"
      by (rule fold_put_other)
    moreover have "put_asset (g x) m (sa_id (g a)) = Some (g a)"
      using True by (simp add: put_asset_apply)
    ultimately show ?thesis
      using True by simp
  next
    case False
    with Cons.prems have "distinct (map (\<lambda>a. sa_id (g a)) xs)" "a \<in> set xs"
      by auto
    from Cons.IH [OF this] show ?thesis
      by simp
  qed
qed

lemma ensure_user_state_known:
  "map_of (user_store_links st) u \<noteq> None \<Longrightarrow>
   user_store_links (ensure_user_state u st) = user_store_links st"
  by (auto simp: ensure_user_state_def Let_def)

lemma ensure_user_state_jobs [simp]:
  "poster_jobs (ensure_user_state u st) = poster_jobs st"
  "menu_board_jobs (ensure_user_state u st) = menu_board_jobs st"
  by (simp_all add: ensure_user_state_def Let_def)

lemma link_store_jobs [simp]:
  "poster_jobs (link_store u sid st) = poster_jobs st"
  "menu_board_jobs (link_store u sid st) = menu_board_jobs st"
  by (simp_all add: link_store_def Let_def split: option.splits)

lemma link_store_known:
  assumes "map_of (user_store_links st) u = Some l"
  shows "map_of (user_store_links (link_store u sid st)) =
           (map_of (user_store_links st))(u \<mapsto> add_link sid l) \<and>
         map fst (user_store_links (link_store u sid st)) = map fst (user_store_links st)"
proof -
  have k: "u \<in> set (map fst (user_store_links st))"
    using assms by (metis domI dom_map_of_conv_image_fst set_map)
  have same: "user_store_links (ensure_user_state u st) = user_store_links st"
    using assms by (simp add: ensure_user_state_known)
  show ?thesis
  proof (cases "sid \<in> set l")
    case True
    then have "user_store_links (link_store u sid st) = user_store_links st"
      using assms same by (simp add: link_store_def Let_def)
    moreover have "(map_of (user_store_links st))(u \<mapsto> l) = map_of (user_store_links st)"
      using assms by (rule map_upd_triv)
    ultimately show ?thesis
      using True by (simp add: add_link_def)
  next
    case False
    then have "user_store_links (link_store u sid st) =
        AList.update u (l @ [sid]) (user_store_links st)"
      using assms same by (simp add: link_store_def Let_def)
    then show ?thesis
      using False k by (simp add: add_link_def AList.update_conv' AList.update_keys)
  qed
qed

lemma add_link_twice [simp]: "add_link sid (add_link sid l) = add_link sid l"
  by (simp add: add_link_def)

lemma add_link_member [simp]: "sid \<in> set (add_link sid l)"
  by (simp add: add_link_def)

lemma fold_link_store_links:
  assumes "set us \<subseteq> fst ` set (user_store_links st)"
  shows "map fst (user_store_links (fold (\<lambda>u s. link_store u sid s) us st)) =
           map fst (user_store_links st) \<and>
         (\<forall>u. map_of (user_store_links (fold (\<lambda>u s. link_store u sid s) us st)) u =
            (if u \<in> set us then map_option (add_link sid) (map_of (user_store_links st) u)
             else map_of (user_store_links st) u))"
  using assms
proof (induction us arbitrary: st)
  case Nil
  then show ?case by simp
next
  case (Cons x us)
  from Cons.prems have "x \<in> fst ` set (user_store_links st)"
    by simp
  then obtain l where l: "map_of (user_store_links st) x = Some l"
    by (metis domD dom_map_of_conv_image_fst)
  let ?st1 = "link_store x sid st"
  from link_store_known [OF l, of sid]
  have m1: "map_of (user_store_links ?st1) = (map_of (user_store_links st))(x \<mapsto> add_link sid l)"
    and k1: "map fst (user_store_links ?st1) = map fst (user_store_links st)"
    by simp_all
  have "fst ` set (user_store_links ?st1) = fst ` set (user_store_links st)"
    using k1 by (metis set_map)
  with Cons.prems have sub: "set us \<subseteq> fst ` set (user_store_links ?st1)"
    by simp
  from Cons.IH [OF sub] show ?case
    using l by (auto simp: m1 k1)
qed

lemma link_store_for_asset_links:
  "map fst (user_store_links (link_store_for_asset sid st)) = map fst (user_store_links st) \<and>
   (\<forall>u. map_of (user_store_links (link_store_for_asset sid st)) u =
          map_option (add_link sid) (map_of (user_store_links st) u))"
proof -
  have "set (map fst (user_store_links st)) \<subseteq> fst ` set (user_store_links st)"
    by simp
  from fold_link_store_links [OF this, of sid]
  show ?thesis
    unfolding link_store_for_asset_def
    by (auto simp: map_of_eq_None_iff [THEN iffD2])
qed

lemma fold_link_store_jobs:
  "poster_jobs (fold (\<lambda>u s. link_store u sid s) us st) = poster_jobs st \<and>
   menu_board_jobs (fold (\<lambda>u s. link_store u sid s) us st) = menu_board_jobs st"
  by (induction us arbitrary: st) simp_all

lemma link_store_for_asset_jobs [simp]:
  "poster_jobs (link_store_for_asset sid st) = poster_jobs st"
  "menu_board_jobs (link_store_for_asset sid st) = menu_board_jobs st"
  by (simp_all add: link_store_for_asset_def fold_link_store_jobs)

lemma selected_assets_complete [simp]:
  "selected_assets (complete_record r) = selected_assets r"
  "asset_copy (complete_record r) = asset_copy r"
  "store_id (complete_record r) = store_id r"
  by (simp_all add: selected_assets_def complete_record_def asset_copy_def fun_eq_iff)

lemma complete_record_fields:
  "status (complete_record r) = Completed \<and> progress (complete_record r) = 100 \<and>
   estimated_seconds_remaining (complete_record r) = 0 \<and>
   (\<forall>s \<in> set (steps (complete_record r)). step_status s = Completed) \<and>
   length (steps (complete_record r)) = length (steps r)"
  by (auto simp: complete_record_def)

lemma set_selected_assets:
  "set (selected_assets r) =
     {a. \<exists>g \<in> set (asset_groups r). a \<in> set (group_assets g) \<and>
           (asset_id a \<in> selected_asset_ids r \<or> selected a)}"
  by (auto simp: selected_assets_def)

lemma group_id_from_asset_cases:
  "(\<forall>c. category a = Some c \<and> c \<noteq> [] \<longrightarrow> group_id_from_asset a = c) \<and>
   (\<not> truthy (category a) \<and> CHR ''_'' \<in> set (asset_id a) \<longrightarrow>
      group_id_from_asset a = takeWhile (\<lambda>c. c \<noteq> CHR ''_'') (asset_id a)) \<and>
   (\<not> truthy (category a) \<and> CHR ''_'' \<notin> set (asset_id a) \<longrightarrow>
      group_id_from_asset a = ''products'')"
  by (auto simp: group_id_from_asset_def)

lemma finalize_result:
  assumes "ingestions st iid = Some r"
  shows "fst (finalize_ingestion iid st) =
           Some \<lparr>assetLibraryId = ''library_default'', totalAssets = length (selected_assets r)\<rparr> \<and>
         assets (snd (finalize_ingestion iid st)) =
           fold (\<lambda>a. put_asset (asset_copy r a)) (selected_assets r) (assets st) \<and>
         user_store_links (snd (finalize_ingestion iid st)) =
           user_store_links (link_store_for_asset (store_id r)
             (st\<lparr>ingestions := (ingestions st)(iid \<mapsto> complete_record r),
                 assets := fold (\<lambda>a. put_asset (asset_copy r a)) (selected_assets r) (assets st)\<rparr>)) \<and>
         poster_jobs (snd (finalize_ingestion iid st)) = poster_jobs st \<and>
         menu_board_jobs (snd (finalize_ingestion iid st)) = menu_board_jobs st"
  using assms
  by (simp add: finalize_ingestion_def Let_def asset_library_id_def)

text \<open>
  Claim C2. On a known ingestion, whatever its prior status, \<open>finalize_ingestion\<close> stores
  the record completed, with progress 100, no seconds remaining and every step completed;
  the promoted assets are exactly the assets of all groups whose id is in the selection set
  or whose flag is set; each is stored under its id with the record's store id and the
  category given by \<open>group_id_from_asset\<close> (the asset's own non-empty category, else the
  part of its id before the first underscore, else \<open>products\<close>), and the other stored
  assets are untouched; every user of \<open>user_store_links\<close> is linked to the store and keeps
  the links it had; the result is the library id \<open>library_default\<close> with the number of
  promoted assets. On an unknown id the result is nothing and the store is unchanged.
\<close>

theorem finalize_ingestion_effects:
  "(ingestions st iid = None \<longrightarrow> finalize_ingestion iid st = (None, st)) \<and>
   (ingestions st iid = Some r \<longrightarrow>
     (\<exists>st' r'. finalize_ingestion iid st =
          (Some \<lparr>assetLibraryId = ''library_default'',
                 totalAssets = length (selected_assets r)\<rparr>, st') \<and>
        ingestions st' = (ingestions st)(iid \<mapsto> r') \<and>
        status r' = Completed \<and> progress r' = 100 \<and> estimated_seconds_remaining r' = 0 \<and>
        (\<forall>s \<in> set (steps r'). step_status s = Completed) \<and>
        length (steps r') = length (steps r) \<and>
        set (selected_assets r) =
          {a. \<exists>g \<in> set (asset_groups r). a \<in> set (group_assets g) \<and>
                (asset_id a \<in> selected_asset_ids r \<or> selected a)} \<and>
        (\<forall>k. k \<notin> asset_id ` set (selected_assets r) \<longrightarrow> assets st' k = assets st k) \<and>
        (\<forall>a \<in> set (selected_assets r). \<exists>b \<in> set (selected_assets r).
            asset_id b = asset_id a \<and>
            assets st' (asset_id a) =
              Some \<lparr>sa_id = asset_id b, sa_name = asset_name b,
                    sa_category = group_id_from_asset b, sa_storeId = store_id r,
                    sa_url = url b\<rparr>) \<and>
        (distinct (map asset_id (selected_assets r)) \<longrightarrow>
           (\<forall>a \<in> set (selected_assets r).
              assets st' (asset_id a) =
                Some \<lparr>sa_id = asset_id a, sa_name = asset_name a,
                      sa_category = group_id_from_asset a, sa_storeId = store_id r,
                      sa_url = url a\<rparr>)) \<and>
        (\<forall>a. (\<forall>c. category a = Some c \<and> c \<noteq> [] \<longrightarrow> group_id_from_asset a = c) \<and>
             (\<not> truthy (category a) \<and> CHR ''_'' \<in> set (asset_id a) \<longrightarrow>
                group_id_from_asset a = takeWhile (\<lambda>c. c \<noteq> CHR ''_'') (asset_id a)) \<and>
             (\<not> truthy (category a) \<and> CHR ''_'' \<notin> set (asset_id a) \<longrightarrow>
                group_id_from_asset a = ''products'')) \<and>
        map fst (user_store_links st') = map fst (user_store_links st) \<and>
        (\<forall>u l. map_of (user_store_links st) u = Some l \<longrightarrow>
           (\<exists>l'. map_of (user_store_links st') u = Some l' \<and> store_id r \<in> set l' \<and>
                 set l \<subseteq> set l')) \<and>
        poster_jobs st' = poster_jobs st \<and> menu_board_jobs st' = menu_board_jobs st))"
proof (intro conjI impI)
  assume "ingestions st iid = None"
  then show "finalize_ingestion iid st = (None, st)"
    by (simp add: finalize_ingestion_def)
next
  assume look: "ingestions st iid = Some r"
  let ?st' = "snd (finalize_ingestion iid st)"
  let ?r' = "complete_record r"
  let ?xs = "selected_assets r"
  note fr = finalize_result [OF look]
  have res: "finalize_ingestion iid st =
      (Some \<lparr>assetLibraryId = ''library_default'', totalAssets = length ?xs\<rparr>, ?st')"
    using fr by (simp add: prod_eq_iff)
  have ing: "ingestions ?st' = (ingestions st)(iid \<mapsto> ?r')"
    using look by (simp add: finalize_ingestions)
  have key_image: "(\<lambda>a. sa_id (asset_copy r a)) ` set ?xs = asset_id ` set ?xs"
    by (simp add: asset_copy_def)
  have key_map: "map (\<lambda>a. sa_id (asset_copy r a)) ?xs = map asset_id ?xs"
    by (simp add: asset_copy_def)
  have other: "\<forall>k. k \<notin> asset_id ` set ?xs \<longrightarrow> assets ?st' k = assets st k"
  proof (intro allI impI)
    fix k assume "k \<notin> asset_id ` set ?xs"
    then have "k \<notin> (\<lambda>a. sa_id (asset_copy r a)) ` set ?xs"
      unfolding key_image .
    then have "fold (\<lambda>a. put_asset (asset_copy r a)) ?xs (assets st) k = assets st k"
      by (rule fold_put_other)
    then show "assets ?st' k = assets st k"
      using fr by simp
  qed
  have last: "\<forall>a \<in> set ?xs. \<exists>b \<in> set ?xs. asset_id b = asset_id a \<and>
      assets ?st' (asset_id a) =
         Some \<lparr>sa_id = asset_id b, sa_name = asset_name b,
               sa_category = group_id_from_asset b, sa_storeId = store_id r, sa_url = url b\<rparr>"
  proof
    fix a assume "a \<in> set ?xs"
    then have "asset_id a \<in> asset_id ` set ?xs"
      by simp
    then have "asset_id a \<in> (\<lambda>a. sa_id (asset_copy r a)) ` set ?xs"
      unfolding key_image .
    from fold_put_last [OF this, of "assets st"]
    obtain b where "b \<in> set ?xs" "sa_id (asset_copy r b) = asset_id a"
      "fold (\<lambda>a. put_asset (asset_copy r a)) ?xs (assets st) (asset_id a) = Some (asset_copy r b)"
      by blast
    then show "\<exists>b \<in> set ?xs. asset_id b = asset_id a \<and>
      assets ?st' (asset_id a) =
         Some \<lparr>sa_id = asset_id b, sa_name = asset_name b,
               sa_category = group_id_from_asset b, sa_storeId = store_id r, sa_url = url b\<rparr>"
      using fr by (auto simp: asset_copy_def)
  qed
  have dist: "distinct (map asset_id ?xs) \<longrightarrow>
      (\<forall>a \<in> set ?xs. assets ?st' (asset_id a) =
         Some \<lparr>sa_id = asset_id a, sa_name = asset_name a,
               sa_category = group_id_from_asset a, sa_storeId = store_id r, sa_url = url a\<rparr>)"
  proof (intro impI ballI)
    fix a assume d: "distinct (map asset_id ?xs)" and a: "a \<in> set ?xs"
    from d have "distinct (map (\<lambda>a. sa_id (asset_copy r a)) ?xs)"
      unfolding key_map .
    from fold_put_distinct [OF this a, of "assets st"]
    show "assets ?st' (asset_id a) =
         Some \<lparr>sa_id = asset_id a, sa_name = asset_name a,
               sa_category = group_id_from_asset a, sa_storeId = store_id r, sa_url = url a\<rparr>"
      using fr by (simp add: asset_copy_def)
  qed
  let ?st2 = "st\<lparr>ingestions := (ingestions st)(iid \<mapsto> complete_record r),
                 assets := fold (\<lambda>a. put_asset (asset_copy r a)) ?xs (assets st)\<rparr>"
  note ls = link_store_for_asset_links [of "store_id r" ?st2]
  have keys: "map fst (user_store_links ?st') = map fst (user_store_links st)"
    using fr ls by simp
  have links: "\<forall>u l. map_of (user_store_links st) u = Some l \<longrightarrow>
           (\<exists>l'. map_of (user_store_links ?st') u = Some l' \<and> store_id r \<in> set l' \<and>
                 set l \<subseteq> set l')"
    using fr ls by (auto simp: add_link_def)
  show "\<exists>st' r'. finalize_ingestion iid st =
          (Some \<lparr>assetLibraryId = ''library_default'',
                 totalAssets = length (selected_assets r)\<rparr>, st') \<and>
        ingestions st' = (ingestions st)(iid \<mapsto> r') \<and>
        status r' = Completed \<and> progress r' = 100 \<and> estimated_seconds_remaining r' = 0 \<and>
        (\<forall>s \<in> set (steps r'). step_status s = Completed) \<and>
        length (steps r') = length (steps r) \<and>
        set (selected_assets r) =
          {a. \<exists>g \<in> set (asset_groups r). a \<in> set (group_assets g) \<and>
                (asset_id a \<in> selected_asset_ids r \<or> selected a)} \<and>
        (\<forall>k. k \<notin> asset_id ` set (selected_assets r) \<longrightarrow> assets st' k = assets st k) \<and>
        (\<forall>a \<in> set (selected_assets r). \<exists>b \<in> set (selected_assets r).
            asset_id b = asset_id a \<and>
            assets st' (asset_id a) =
              Some \<lparr>sa_id = asset_id b, sa_name = asset_name b,
                    sa_category = group_id_from_asset b, sa_storeId = store_id r,
                    sa_url = url b\<rparr>) \<and>
        (distinct (map asset_id (selected_assets r)) \<longrightarrow>
           (\<forall>a \<in> set (selected_assets r).
              assets st' (asset_id a) =
                Some \<lparr>sa_id = asset_id a, sa_name = asset_name a,
                      sa_category = group_id_from_asset a, sa_storeId = store_id r,
                      sa_url = url a\<rparr>)) \<and>
        (\<forall>a. (\<forall>c. category a = Some c \<and> c \<noteq> [] \<longrightarrow> group_id_from_asset a = c) \<and>
             (\<not> truthy (category a) \<and> CHR ''_'' \<in> set (asset_id a) \<longrightarrow>
                group_id_from_asset a = takeWhile (\<lambda>c. c \<noteq> CHR ''_'') (asset_id a)) \<and>
             (\<not> truthy (category a) \<and> CHR ''_'' \<notin> set (asset_id a) \<longrightarrow>
                group_id_from_asset a = ''products'')) \<and>
        map fst (user_store_links st') = map fst (user_store_links st) \<and>
        (\<forall>u l. map_of (user_store_links st) u = Some l \<longrightarrow>
           (\<exists>l'. map_of (user_store_links st') u = Some l' \<and> store_id r \<in> set l' \<and>
                 set l \<subseteq> set l')) \<and>
        poster_jobs st' = poster_jobs st \<and> menu_board_jobs st' = menu_board_jobs st"
    apply (rule exI [of _ ?st'])
    apply (rule exI [of _ ?r'])
    apply (intro conjI)
                  apply (rule res)
                 apply (rule ing)
                apply (simp add: complete_record_fields)
               apply (simp add: complete_record_fields)
              apply (simp add: complete_record_fields)
             apply (simp add: complete_record_fields)
            apply (simp add: complete_record_fields)
           apply (rule set_selected_assets)
          apply (rule other)
         apply (rule last)
        apply (rule dist)
       apply (intro allI, rule group_id_from_asset_cases)
      apply (rule keys)
     apply (rule links)
    apply (simp add: fr)
    apply (simp add: fr)
    done
qed

lemma get_store_s2: "get_store ''s2'' \<noteq> None"
  by (simp add: get_store_def stores_def)

lemma build_ingestion_assets_s2:
  "build_ingestion_assets ''s2'' =
     [\<lparr>group_id = ''logo'', group_name = ''Store Logo'',
        group_assets = [build_asset ''s2'' 0 ''logo'' ''Store Logo'' 1,
                        build_asset ''s2'' 0 ''logo'' ''Store Logo'' 2]\<rparr>,
      \<lparr>group_id = ''menu'', group_name = ''Menu'',
        group_assets = [build_asset ''s2'' 1 ''menu'' ''Menu'' 1,
                        build_asset ''s2'' 1 ''menu'' ''Menu'' 2]\<rparr>,
      \<lparr>group_id = ''products'', group_name = ''Product Images'',
        group_assets = [build_asset ''s2'' 2 ''products'' ''Product Images'' 1,
                        build_asset ''s2'' 2 ''products'' ''Product Images'' 2]\<rparr>,
      \<lparr>group_id = ''interior'', group_name = ''Interior'',
        group_assets = [build_asset ''s2'' 3 ''interior'' ''Interior'' 1,
                        build_asset ''s2'' 3 ''interior'' ''Interior'' 2]\<rparr>]"
  by (simp add: build_ingestion_assets_def categories_def one_two numeral_2_eq_2 numeral_3_eq_3)

lemma build_asset_fields:
  "asset_id (build_asset sid idx c n (Suc 0)) = c @ ''_1_'' @ sid"
  "asset_id (build_asset sid idx c n 2) = c @ ''_2_'' @ sid"
  "selected (build_asset sid idx c n (Suc 0)) = True"
  "selected (build_asset sid idx c n 2) = False"
  "category (build_asset sid idx c n v) = None"
  using str_nat_digits by (simp_all add: build_asset_def)

lemma demo_flagged_ids:
  "flagged_ids (fst (start_ingestion ''s2'' 0 demo_hex st)) =
      [''logo_1_s2'', ''menu_1_s2'', ''products_1_s2'', ''interior_1_s2'']"
  by (simp add: flagged_ids_def start_ingestion_record build_ingestion_assets_s2
        build_asset_fields)

lemma start_ingestion_fst: 
  "fst (start_ingestion sid now hex st) = fst (start_ingestion sid now hex empty_store)"
  by (simp add: start_ingestion_record)

lemma demo_full_store_lookup: "ingestions demo_full_store demo_id = Some demo_selected"
proof -
  let ?st = "link_store 7 ''s2'' (ensure_user_state 9 empty_store)"
  have "ingestions demo_full_store demo_id =
      Some (select_record (flagged_ids (fst (start_ingestion ''s2'' 0 demo_hex ?st)))
          (fst (start_ingestion ''s2'' 0 demo_hex ?st)))"
    unfolding demo_full_store_def
    by (simp add: start_view_ingestions [OF get_store_s2] demo_id_uid)
  also have "\<dots> = Some demo_selected"
    unfolding demo_selected_def demo_flagged_ids
    using start_ingestion_fst [of "''s2''" 0 demo_hex ?st] by simp
  finally show ?thesis .
qed

lemma selected_asset_ids_flags:
  "map asset_id (selected_assets r) =
     concat (map (\<lambda>fs. map fst (filter (\<lambda>(i, b). i \<in> selected_asset_ids r \<or> b) fs))
                 (asset_flags r))"
proof -
  have "map asset_id (filter (\<lambda>a. asset_id a \<in> S \<or> selected a) xs) =
      map fst (filter (\<lambda>(i, b). i \<in> S \<or> b) (map (\<lambda>a. (asset_id a, selected a)) xs))"
    for S and xs :: "asset list"
    by (induction xs) auto
  then show ?thesis
    by (simp add: selected_assets_def asset_flags_def map_concat comp_def)
qed

lemma demo_selected_flags:
  "asset_flags demo_selected =
     [[(''logo_1_s2'', True), (''logo_2_s2'', False)],
      [(''menu_1_s2'', True), (''menu_2_s2'', False)],
      [(''products_1_s2'', True), (''products_2_s2'', False)],
      [(''interior_1_s2'', True), (''interior_2_s2'', False)]]"
proof -
  have "asset_flags (fst (start_ingestion ''s2'' 0 demo_hex empty_store)) =
     [[(''logo_1_s2'', True), (''logo_2_s2'', False)],
      [(''menu_1_s2'', True), (''menu_2_s2'', False)],
      [(''products_1_s2'', True), (''products_2_s2'', False)],
      [(''interior_1_s2'', True), (''interior_2_s2'', False)]]"
    using build_ingestion_assets_flags [of "''s2''"]
    by (simp add: asset_flags_def start_ingestion_record)
  then show ?thesis
    unfolding demo_selected_def asset_flags_select by simp
qed

lemma demo_selected_ids:
  "map asset_id (selected_assets demo_selected) =
     [''logo_1_s2'', ''menu_1_s2'', ''products_1_s2'', ''interior_1_s2'']"
proof -
  have "selected_asset_ids demo_selected =
      set [''logo_1_s2'', ''menu_1_s2'', ''products_1_s2'', ''interior_1_s2'']"
    unfolding demo_selected_def by (rule select_record_fields)
  then show ?thesis
    unfolding selected_asset_ids_flags demo_selected_flags by simp
qed

lemma build_ingestion_assets_no_category:
  "g \<in> set (build_ingestion_assets sid) \<Longrightarrow> a \<in> set (group_assets g) \<Longrightarrow> category a = None"
  by (auto simp: build_ingestion_assets_def build_asset_def)

lemma demo_selected_no_category:
  "b \<in> set (selected_assets demo_selected) \<Longrightarrow> category b = None"
  using build_ingestion_assets_no_category [of _ "''s2''"]
  by (auto simp: demo_selected_def selected_assets_def select_record_def Let_def
      start_ingestion_record)

lemma demo_selected_store: "store_id demo_selected = ''s2''"
  by (simp add: demo_selected_def select_record_def Let_def start_ingestion_record)

lemma demo_full_store_links:
  "map_of (user_store_links demo_full_store) 9 = Some [''s1'']"
proof -
  have a: "user_store_links (ensure_user_state 9 empty_store) = [(9, [''s1''])]"
    by (simp add: ensure_user_state_def Let_def empty_store_def first_store_id)
  have b: "user_store_links (ensure_user_state 7 (ensure_user_state 9 empty_store)) =
      [(9, [''s1'']), (7, [''s1''])]"
    using a by (simp add: ensure_user_state_def [of 7] Let_def first_store_id)
  have c: "user_store_links (link_store 7 ''s2'' (ensure_user_state 9 empty_store)) =
      [(9, [''s1'']), (7, [''s1'', ''s2''])]"
    using b by (simp add: link_store_def Let_def)
  have "user_store_links demo_full_store =
      user_store_links (link_store 7 ''s2'' (ensure_user_state 9 empty_store))"
    using get_store_s2
    by (auto simp: demo_full_store_def store_ingestion_start_view_def start_ingestion_def
        record_selection_def Let_def split: prod.splits option.splits)
  then show ?thesis
    using c by simp
qed

lemma demo_full_store_unknown: "ingestions demo_full_store ''ing_unknown'' = None"
proof -
  have "uid ''ing'' demo_hex \<noteq> ''ing_unknown''"
    by (simp add: uid_def demo_hex_def)
  then show ?thesis
    using start_view_ingestions [OF get_store_s2, of 7 0 demo_hex "ensure_user_state 9 empty_store"]
    by (simp add: demo_full_store_def empty_store_def)
qed

lemma demo_selected_count: "length (selected_assets demo_selected) = 4"
proof -
  have "length (map asset_id (selected_assets demo_selected)) = 4"
    unfolding demo_selected_ids by simp
  then show ?thesis by simp
qed

theorem finalize_ingestion_effects_witness:
  "ingestions demo_full_store demo_id = Some demo_selected \<and>
   fst (finalize_ingestion demo_id demo_full_store) =
     Some \<lparr>assetLibraryId = ''library_default'', totalAssets = 4\<rparr> \<and>
   map_option status (ingestions (snd (finalize_ingestion demo_id demo_full_store)) demo_id) =
     Some Completed \<and>
   map_option (\<lambda>e. (sa_category e, sa_storeId e))
     (assets (snd (finalize_ingestion demo_id demo_full_store)) ''logo_1_s2'') =
     Some (''logo'', ''s2'') \<and>
   map_of (user_store_links demo_full_store) 9 = Some [''s1''] \<and>
   (\<exists>l. map_of (user_store_links (snd (finalize_ingestion demo_id demo_full_store))) 9 = Some l
        \<and> ''s2'' \<in> set l) \<and>
   finalize_ingestion ''ing_unknown'' demo_full_store = (None, demo_full_store)"
proof -
  note a = finalize_ingestion_effects
      [where st = demo_full_store and iid = demo_id and r = demo_selected]
  note b = finalize_ingestion_effects
      [where st = demo_full_store and iid = "''ing_unknown''" and r = demo_selected]
  from a [THEN conjunct2, rule_format, OF demo_full_store_lookup]
  obtain st' r' where
    res: "finalize_ingestion demo_id demo_full_store =
          (Some \<lparr>assetLibraryId = ''library_default'',
                 totalAssets = length (selected_assets demo_selected)\<rparr>, st')"
    and ing: "ingestions st' = (ingestions demo_full_store)(demo_id \<mapsto> r')"
    and st: "status r' = Completed"
    and stored: "\<forall>a \<in> set (selected_assets demo_selected).
        \<exists>b \<in> set (selected_assets demo_selected). asset_id b = asset_id a \<and>
            assets st' (asset_id a) =
              Some \<lparr>sa_id = asset_id b, sa_name = asset_name b,
                    sa_category = group_id_from_asset b, sa_storeId = store_id demo_selected,
                    sa_url = url b\<rparr>"
    and links: "\<forall>u l. map_of (user_store_links demo_full_store) u = Some l \<longrightarrow>
           (\<exists>l'. map_of (user_store_links st') u = Some l' \<and>
                 store_id demo_selected \<in> set l' \<and> set l \<subseteq> set l')"
    by (elim exE conjE)
  have fst_res: "fst (finalize_ingestion demo_id demo_full_store) =
     Some \<lparr>assetLibraryId = ''library_default'', totalAssets = 4\<rparr>"
    unfolding res demo_selected_count by simp
  have snd_res: "snd (finalize_ingestion demo_id demo_full_store) = st'"
    unfolding res by simp
  have stat: "map_option status (ingestions st' demo_id) = Some Completed"
    unfolding ing using st by simp
  have "''logo_1_s2'' \<in> set (map asset_id (selected_assets demo_selected))"
    unfolding demo_selected_ids by simp
  then obtain a0 where a0: "a0 \<in> set (selected_assets demo_selected)"
    and a0_id: "asset_id a0 = ''logo_1_s2''"
    by auto
  from stored [rule_format, OF a0] obtain b0 where b0: "b0 \<in> set (selected_assets demo_selected)"
    and b0_id: "asset_id b0 = asset_id a0"
    and b0_st: "assets st' (asset_id a0) =
       Some \<lparr>sa_id = asset_id b0, sa_name = asset_name b0,
             sa_category = group_id_from_asset b0, sa_storeId = store_id demo_selected,
             sa_url = url b0\<rparr>"
    by blast
  have "category b0 = None"
    using b0 by (rule demo_selected_no_category)
  moreover have "asset_id b0 = ''logo_1_s2''"
    using b0_id a0_id by simp
  ultimately have g: "group_id_from_asset b0 = ''logo''"
    by (simp add: group_id_from_asset_def)
  have cat: "map_option (\<lambda>e. (sa_category e, sa_storeId e)) (assets st' ''logo_1_s2'') =
      Some (''logo'', ''s2'')"
    using b0_st unfolding a0_id g demo_selected_store by simp
  from links [rule_format, OF demo_full_store_links]
  have l9: "\<exists>l. map_of (user_store_links st') 9 = Some l \<and> ''s2'' \<in> set l"
    unfolding demo_selected_store by blast
  have u: "finalize_ingestion ''ing_unknown'' demo_full_store = (None, demo_full_store)"
    using b [THEN conjunct1, rule_format, OF demo_full_store_unknown] .
  show ?thesis
    unfolding snd_res
    using demo_full_store_lookup fst_res stat cat demo_full_store_links l9 u
    by (intro conjI) 
qed

section \<open>Progress over time\<close>

















end
